theory Spec2Isabelle
  imports Complex_Main "HOL-Library.List_Lexorder" "HOL-Library.Char_ord" "HOL-Library.Multiset"
    "HOL-Library.AList"
begin

unbundle bit_operations_syntax

section \<open>Python values and their canonical JSON text\<close>

text \<open>
  The values a payload is made of. A message payload is what \<^verbatim>\<open>json.loads\<close> returns, and
  \<^verbatim>\<open>get_payload_hash\<close> accepts any object, so the type has the JSON values and one more
  constructor, \<open>POther\<close>, for an object the JSON encoder does not know (a \<^verbatim>\<open>datetime\<close>, say),
  carried as the text \<^verbatim>\<open>str\<close> gives it. A float is carried as the text the encoder writes for
  it (\<^verbatim>\<open>float.__repr__\<close>); no arithmetic on floats occurs in the code modelled here. Strings are
  lists of code points below 256. A \<^verbatim>\<open>dict\<close> is the list of its items in insertion order, with
  string keys, as \<^verbatim>\<open>json.loads\<close> builds it.
\<close>

datatype pyval =
    PNone
  | PBool bool
  | PInt int
  | PFloat string
  | PStr string
  | PList "pyval list"
  | PDict "(string \<times> pyval) list"
  | POther string

datatype py_exception =
    StopIteration
  | TypeError
  | AttributeError
  | ValueError

text \<open>\<^verbatim>\<open>len(x)\<close>: defined on lists, dicts and strings; \<open>None\<close> stands for the \<^verbatim>\<open>TypeError\<close>.\<close>

fun py_len :: "pyval \<Rightarrow> nat option" where
  "py_len (PList xs) = Some (length xs)"
| "py_len (PDict kvs) = Some (length kvs)"
| "py_len (PStr s) = Some (length s)"
| "py_len _ = None"

text \<open>Iterating a value, as \<^verbatim>\<open>list.extend\<close> does: a dict yields its keys, a string its characters.\<close>

fun py_iter :: "pyval \<Rightarrow> pyval list option" where
  "py_iter (PList xs) = Some xs"
| "py_iter (PDict kvs) = Some (map (\<lambda>kv. PStr (fst kv)) kvs)"
| "py_iter (PStr s) = Some (map (\<lambda>c. PStr [c]) s)"
| "py_iter _ = None"

definition digit_char :: "nat \<Rightarrow> char" where
  "digit_char d = ''0123456789'' ! (d mod 10)"

fun nat_digits :: "nat \<Rightarrow> string" where
  "nat_digits n = (if n < 10 then [digit_char n] else nat_digits (n div 10) @ [digit_char (n mod 10)])"

declare nat_digits.simps [simp del]

definition py_str_int :: "int \<Rightarrow> string" where
  "py_str_int i = (if i < 0 then CHR ''-'' # nat_digits (nat (- i)) else nat_digits (nat i))"

definition hex_digit :: "nat \<Rightarrow> char" where
  "hex_digit n = ''0123456789abcdef'' ! (n mod 16)"

text \<open>
  The encoder's string escaping with \<^verbatim>\<open>ensure_ascii=True\<close>: the quote and the backslash are
  escaped, the five control characters have their letter, every other character outside
  the range from space to tilde is written \<^verbatim>\<open>\u00xx\<close>.
\<close>

definition escape_char :: "char \<Rightarrow> string" where
  "escape_char c =
     (let n = (of_char c :: nat) in
      if n = 34 then [CHR 0x5C, CHR 0x22]
      else if n = 92 then [CHR 0x5C, CHR 0x5C]
      else if n = 8 then [CHR 0x5C, CHR ''b'']
      else if n = 12 then [CHR 0x5C, CHR ''f'']
      else if n = 10 then [CHR 0x5C, CHR ''n'']
      else if n = 13 then [CHR 0x5C, CHR ''r'']
      else if n = 9 then [CHR 0x5C, CHR ''t'']
      else if 32 \<le> n \<and> n \<le> 126 then [c]
      else [CHR 0x5C, CHR ''u'', CHR ''0'', CHR ''0'', hex_digit (n div 16), hex_digit n])"

definition encode_str :: "string \<Rightarrow> string" where
  "encode_str s = CHR 0x22 # concat (map escape_char s) @ [CHR 0x22]"

fun join :: "string \<Rightarrow> string list \<Rightarrow> string" where
  "join sep [] = []"
| "join sep [x] = x"
| "join sep (x # y # ys) = x @ sep @ join sep (y # ys)"

definition encode_item :: "string \<times> string \<Rightarrow> string" where
  "encode_item kv = encode_str (fst kv) @ '': '' @ snd kv"

text \<open>
  \<^verbatim>\<open>json.dumps(payload, sort_keys=True, default=str)\<close> with the default separators. The items
  of a dict are sorted by key; the values are encoded first here and the items sorted
  afterwards, which is the same list since encoding leaves the keys alone. \<^verbatim>\<open>default=str\<close>
  is called for \<open>POther\<close> only, and its result is encoded as a string.
\<close>

primrec json_dumps :: "pyval \<Rightarrow> string" where
  "json_dumps PNone = ''null''"
| "json_dumps (PBool b) = (if b then ''true'' else ''false'')"
| "json_dumps (PInt i) = py_str_int i"
| "json_dumps (PFloat r) = r"
| "json_dumps (PStr s) = encode_str s"
| "json_dumps (PList xs) = ''['' @ join '', '' (map json_dumps xs) @ '']''"
| "json_dumps (PDict kvs) =
     ''{'' @ join '', '' (map encode_item (sort_key fst (map (map_prod id json_dumps) kvs))) @ ''}''"
| "json_dumps (POther s) = encode_str s"

section \<open>SHA-256\<close>

text \<open>
  \<^verbatim>\<open>hashlib.sha256\<close>, after FIPS 180-4. A 32-bit word is a natural number below \<open>2 ^ 32\<close> and
  the wrap-around of the additions is written out. The round constants and the initial
  hash value are given in decimal.
\<close>

definition add32 :: "nat \<Rightarrow> nat \<Rightarrow> nat" where
  "add32 a b = (a + b) mod 4294967296"

definition rotr :: "nat \<Rightarrow> nat \<Rightarrow> nat" where
  "rotr n x = x div 2 ^ n + (x mod 2 ^ n) * 2 ^ (32 - n)"

definition sha_ch :: "nat \<Rightarrow> nat \<Rightarrow> nat \<Rightarrow> nat" where
  "sha_ch x y z = (x AND y) XOR ((4294967295 - x) AND z)"

definition sha_maj :: "nat \<Rightarrow> nat \<Rightarrow> nat \<Rightarrow> nat" where
  "sha_maj x y z = (x AND y) XOR (x AND z) XOR (y AND z)"

definition bsig0 :: "nat \<Rightarrow> nat" where
  "bsig0 x = rotr 2 x XOR rotr 13 x XOR rotr 22 x"

definition bsig1 :: "nat \<Rightarrow> nat" where
  "bsig1 x = rotr 6 x XOR rotr 11 x XOR rotr 25 x"

definition ssig0 :: "nat \<Rightarrow> nat" where
  "ssig0 x = rotr 7 x XOR rotr 18 x XOR x div 2 ^ 3"

definition ssig1 :: "nat \<Rightarrow> nat" where
  "ssig1 x = rotr 17 x XOR rotr 19 x XOR x div 2 ^ 10"

definition sha_k :: "nat list" where
  "sha_k = [
   1116352408, 1899447441, 3049323471, 3921009573, 961987163, 1508970993, 2453635748, 2870763221,
   3624381080, 310598401, 607225278, 1426881987, 1925078388, 2162078206, 2614888103, 3248222580,
   3835390401, 4022224774, 264347078, 604807628, 770255983, 1249150122, 1555081692, 1996064986,
   2554220882, 2821834349, 2952996808, 3210313671, 3336571891, 3584528711, 113926993, 338241895,
   666307205, 773529912, 1294757372, 1396182291, 1695183700, 1986661051, 2177026350, 2456956037,
   2730485921, 2820302411, 3259730800, 3345764771, 3516065817, 3600352804, 4094571909, 275423344,
   430227734, 506948616, 659060556, 883997877, 958139571, 1322822218, 1537002063, 1747873779,
   1955562222, 2024104815, 2227730452, 2361852424, 2428436474, 2756734187, 3204031479, 3329325298]"

definition sha_h0 :: "nat list" where
  "sha_h0 = [1779033703, 3144134277, 1013904242, 2773480762,
             1359893119, 2600822924, 528734635, 1541459225]"

fun zeros :: "nat \<Rightarrow> nat list" where
  "zeros n = (if n = 0 then [] else 0 # zeros (n - 1))"

declare zeros.simps [simp del]

text \<open>Padding: the message, the byte 0x80, zeros up to 56 modulo 64, the bit length in 8 bytes.\<close>

definition sha_pad :: "nat list \<Rightarrow> nat list" where
  "sha_pad bs =
     (let l = length bs; bits = 8 * l
      in bs @ [128] @ zeros ((119 - l mod 64) mod 64) @
         [bits div 72057594037927936 mod 256, bits div 281474976710656 mod 256,
          bits div 1099511627776 mod 256, bits div 4294967296 mod 256,
          bits div 16777216 mod 256, bits div 65536 mod 256, bits div 256 mod 256, bits mod 256])"

fun be_words :: "nat list \<Rightarrow> nat list" where
  "be_words (a # b # c # d # r) = (((a * 256 + b) * 256 + c) * 256 + d) # be_words r"
| "be_words _ = []"

fun blocks :: "nat list \<Rightarrow> nat list list" where
  "blocks (w0 # w1 # w2 # w3 # w4 # w5 # w6 # w7 # w8 # w9 # w10 # w11 # w12 # w13 # w14 # w15 # r) =
     [w0, w1, w2, w3, w4, w5, w6, w7, w8, w9, w10, w11, w12, w13, w14, w15] # blocks r"
| "blocks _ = []"

text \<open>
  The message schedule is built newest word first: the head of \<open>rw\<close> is \<open>W[t-1]\<close>. The 16
  words of the block are extended by 48 more.
\<close>

definition schedule_step :: "nat list \<Rightarrow> nat list" where
  "schedule_step rw =
     add32 (add32 (add32 (ssig1 (rw ! 1)) (rw ! 6)) (ssig0 (rw ! 14))) (rw ! 15) # rw"

fun extend_schedule :: "nat \<Rightarrow> nat list \<Rightarrow> nat list" where
  "extend_schedule n rw = (if n = 0 then rw else extend_schedule (n - 1) (schedule_step rw))"

declare extend_schedule.simps [simp del]

definition schedule :: "nat list \<Rightarrow> nat list" where
  "schedule blk = rev (extend_schedule 48 (rev blk))"

fun sha_round :: "nat list \<Rightarrow> nat \<times> nat \<Rightarrow> nat list" where
  "sha_round [a, b, c, d, e, f, g, h] (k, w) =
     (let t1 = add32 (add32 (add32 (add32 h (bsig1 e)) (sha_ch e f g)) k) w;
          t2 = add32 (bsig0 a) (sha_maj a b c)
      in [add32 t1 t2, a, b, c, add32 d t1, e, f, g])"
| "sha_round st _ = st"

definition sha_block :: "nat list \<Rightarrow> nat list \<Rightarrow> nat list" where
  "sha_block hs blk = map2 add32 hs (foldl sha_round hs (zip sha_k (schedule blk)))"

definition sha256 :: "nat list \<Rightarrow> nat list" where
  "sha256 bs = foldl sha_block sha_h0 (blocks (be_words (sha_pad bs)))"

definition hex_word :: "nat \<Rightarrow> string" where
  "hex_word w = [hex_digit (w div 268435456), hex_digit (w div 16777216), hex_digit (w div 1048576),
                 hex_digit (w div 65536), hex_digit (w div 4096), hex_digit (w div 256),
                 hex_digit (w div 16), hex_digit w]"

text \<open>\<^verbatim>\<open>hashlib.sha256(s.encode()).hexdigest()\<close> for a string of ASCII characters.\<close>

definition sha256_hexdigest :: "string \<Rightarrow> string" where
  "sha256_hexdigest s = concat (map hex_word (sha256 (map of_char s)))"

section \<open>IdempotencyService\<close>

text \<open>
  The cache is an \<^verbatim>\<open>OrderedDict\<close>: its items in insertion order. Times are microseconds,
  the resolution of \<^verbatim>\<open>datetime\<close>; every \<^verbatim>\<open>datetime.now()\<close> of the source is an argument.
\<close>

record dedup_entry =
  event_type :: string
  record_count :: nat
  payload_hash :: string
  processed_at :: int
  expires_at :: int

record idempotency_service =
  cache :: "(string \<times> dedup_entry) list"
  max_size :: int
  ttl_seconds :: int

definition cleanup_expired :: "int \<Rightarrow> idempotency_service \<Rightarrow> idempotency_service" where
  "cleanup_expired now svc =
     (let expired_keys = map fst (filter (\<lambda>kv. expires_at (snd kv) < now) (cache svc))
      in svc\<lparr>cache := foldl (\<lambda>c k. AList.delete k c) (cache svc) expired_keys\<rparr>)"

definition is_processed ::
  "int \<Rightarrow> string \<Rightarrow> idempotency_service \<Rightarrow> bool \<times> idempotency_service" where
  "is_processed now message_id svc =
     (let svc' = cleanup_expired now svc
      in (message_id \<in> set (map fst (cache svc')), svc'))"

text \<open>
  \<open>mark_processed\<close> reads the clock twice, for \<open>processed_at\<close> and for \<open>expires_at\<close>;
  \<open>new_entry\<close> is the entry it stores. \<^verbatim>\<open>next(iter(self._cache))\<close> on an empty cache raises
  \<^verbatim>\<open>StopIteration\<close>, which happens when the size limit is not positive.
\<close>

definition new_entry ::
  "int \<Rightarrow> int \<Rightarrow> string \<Rightarrow> nat \<Rightarrow> string \<Rightarrow> idempotency_service \<Rightarrow> dedup_entry" where
  "new_entry now1 now2 et rc h svc =
     \<lparr>event_type = et, record_count = rc, payload_hash = h, processed_at = now1,
      expires_at = now2 + ttl_seconds svc * 1000000\<rparr>"

definition mark_processed ::
  "int \<Rightarrow> int \<Rightarrow> string \<Rightarrow> string \<Rightarrow> nat \<Rightarrow> string \<Rightarrow> idempotency_service
     \<Rightarrow> py_exception + idempotency_service" where
  "mark_processed now1 now2 message_id et rc h svc =
     (if max_size svc \<le> int (length (cache svc)) then
        (case cache svc of
           [] \<Rightarrow> Inl StopIteration
         | oldest # _ \<Rightarrow>
             Inr (svc\<lparr>cache := AList.update message_id (new_entry now1 now2 et rc h svc)
                                 (AList.delete (fst oldest) (cache svc))\<rparr>))
      else Inr (svc\<lparr>cache := AList.update message_id (new_entry now1 now2 et rc h svc)
                                (cache svc)\<rparr>))"

definition get_payload_hash :: "pyval \<Rightarrow> string" where
  "get_payload_hash p = sha256_hexdigest (json_dumps p)"

definition is_duplicate_content ::
  "int \<Rightarrow> string \<Rightarrow> idempotency_service \<Rightarrow> bool \<times> idempotency_service" where
  "is_duplicate_content now h svc =
     (let svc' = cleanup_expired now svc
      in (h \<in> set (map (\<lambda>kv. payload_hash (snd kv)) (cache svc')), svc'))"

definition clear_cache :: "idempotency_service \<Rightarrow> idempotency_service" where
  "clear_cache svc = svc\<lparr>cache := []\<rparr>"

section \<open>MergeService\<close>

record merge_service =
  customer_buffer :: "pyval list"
  inventory_buffer :: "pyval list"

definition merge_service_init :: merge_service where
  "merge_service_init = \<lparr>customer_buffer = [], inventory_buffer = []\<rparr>"

definition add_customer_data :: "pyval list \<Rightarrow> merge_service \<Rightarrow> merge_service" where
  "add_customer_data xs ms = ms\<lparr>customer_buffer := customer_buffer ms @ xs\<rparr>"

definition add_inventory_data :: "pyval list \<Rightarrow> merge_service \<Rightarrow> merge_service" where
  "add_inventory_data xs ms = ms\<lparr>inventory_buffer := inventory_buffer ms @ xs\<rparr>"

definition has_data :: "merge_service \<Rightarrow> bool" where
  "has_data ms = (0 < length (customer_buffer ms) \<or> 0 < length (inventory_buffer ms))"

record payload_metadata =
  source :: string
  version :: string
  customerCount :: nat
  productCount :: nat
  mergedAt :: string

record delivery_payload =
  eventId :: string
  timestamp :: string
  customers :: "pyval list"
  products :: "pyval list"
  meta :: payload_metadata

text \<open>What one call of \<open>create_analytics_payload\<close> draws from the clock and the UUID generator.\<close>

record payload_stamp =
  stamp_event_id :: string
  stamp_timestamp :: string
  stamp_merged_at :: string

definition APP_NAME :: string where
  "APP_NAME = ''python-consumers''"

definition APP_VERSION :: string where
  "APP_VERSION = ''1.0.0''"

text \<open>The payload holds copies of both buffers; the service is returned as it was.\<close>

definition create_analytics_payload ::
  "payload_stamp \<Rightarrow> merge_service \<Rightarrow> delivery_payload \<times> merge_service" where
  "create_analytics_payload st ms =
     (\<lparr>eventId = stamp_event_id st,
       timestamp = stamp_timestamp st,
       customers = customer_buffer ms,
       products = inventory_buffer ms,
       meta = \<lparr>source = APP_NAME, version = APP_VERSION,
                customerCount = length (customer_buffer ms),
                productCount = length (inventory_buffer ms),
                mergedAt = stamp_merged_at st\<rparr>\<rparr>, ms)"

definition clear_buffers :: "merge_service \<Rightarrow> merge_service" where
  "clear_buffers ms = ms\<lparr>customer_buffer := [], inventory_buffer := []\<rparr>"

definition get_buffer_stats :: "merge_service \<Rightarrow> nat \<times> nat \<times> nat" where
  "get_buffer_stats ms =
     (length (customer_buffer ms), length (inventory_buffer ms),
      length (customer_buffer ms) + length (inventory_buffer ms))"

section \<open>AnalyticsService\<close>

text \<open>
  What one pass through the \<^verbatim>\<open>try\<close> block of \<open>send_analytics_data\<close> ends in: the response was
  accepted, or one of the exceptions the \<^verbatim>\<open>except\<close> clauses tell apart. \<open>HTTPError\<close> carries
  the status code. What one \<^verbatim>\<open>session.post\<close> call ends in, given the endpoint's answers, is
  modelled in the section on the session.
\<close>

datatype post_outcome =
    Success
  | Timeout
  | HTTPError int
  | RequestException
  | OtherException

datatype send_event =
    Attempt int
  | Sleep real

record analytics_service =
  max_retries :: int
  backoff_base :: real
  backoff_multiplier :: real

text \<open>
  The delay is a float in the source and a real number here. \<^verbatim>\<open>time.sleep\<close> raises
  \<^verbatim>\<open>ValueError\<close> on a negative delay.
\<close>

definition backoff :: "analytics_service \<Rightarrow> int \<Rightarrow> py_exception + real" where
  "backoff svc attempt =
     (let delay = backoff_base svc * backoff_multiplier svc ^ nat (attempt - 1)
      in if delay < 0 then Inl ValueError else Inr delay)"

text \<open>
  The loop \<^verbatim>\<open>for attempt in range(1, self.max_retries + 1)\<close>, with the trace of the attempts
  made and the delays slept. An exception raised by the sleep leaves the function.
\<close>

fun send_loop ::
  "analytics_service \<Rightarrow> (int \<Rightarrow> post_outcome) \<Rightarrow> int list \<Rightarrow> send_event list
     \<Rightarrow> (py_exception + bool) \<times> send_event list" where
  "send_loop svc post [] tr = (Inr False, tr)"
| "send_loop svc post (attempt # rest) tr =
     (let tr1 = tr @ [Attempt attempt];
          retry = (if attempt < max_retries svc then
                     (case backoff svc attempt of
                        Inl e \<Rightarrow> (Inl e, tr1)
                      | Inr d \<Rightarrow> send_loop svc post rest (tr1 @ [Sleep d]))
                   else send_loop svc post rest tr1)
      in case post attempt of
           Success \<Rightarrow> (Inr True, tr1)
         | HTTPError status \<Rightarrow>
             if 400 \<le> status \<and> status < 500 then (Inr False, tr1) else retry
         | _ \<Rightarrow> retry)"

definition send_analytics_data ::
  "analytics_service \<Rightarrow> (int \<Rightarrow> post_outcome) \<Rightarrow> (py_exception + bool) \<times> send_event list" where
  "send_analytics_data svc post = send_loop svc post [1..max_retries svc] []"

section \<open>The session of the analytics service\<close>











section \<open>The flush of the merge buffer\<close>

text \<open>
  \<open>_flush_to_analytics\<close>: build the payload, send it, clear the buffers if the send returned
  \<^verbatim>\<open>True\<close>. The endpoint's answers may depend on the payload. An exception is caught and
  logged, and the buffers stay.
\<close>

record flush_result =
  flushed :: delivery_payload
  sent :: "py_exception + bool"
  trace :: "send_event list"
  after :: merge_service

definition flush_to_analytics ::
  "analytics_service \<Rightarrow> payload_stamp \<Rightarrow> (delivery_payload \<Rightarrow> int \<Rightarrow> post_outcome)
     \<Rightarrow> merge_service \<Rightarrow> flush_result" where
  "flush_to_analytics svc st endpoint ms =
     (let (payload, ms1) = create_analytics_payload st ms;
          (success, tr) = send_analytics_data svc (endpoint payload)
      in \<lparr>flushed = payload, sent = success, trace = tr,
          after = (if success = Inr True then clear_buffers ms1 else ms1)\<rparr>)"

text \<open>One tick of \<open>_run_merger\<close> after its sleep: flush if there is data.\<close>

definition merger_tick ::
  "analytics_service \<Rightarrow> payload_stamp \<Rightarrow> (delivery_payload \<Rightarrow> int \<Rightarrow> post_outcome)
     \<Rightarrow> merge_service \<Rightarrow> merge_service" where
  "merger_tick svc st endpoint ms =
     (if has_data ms then after (flush_to_analytics svc st endpoint ms) else ms)"

section \<open>The flush among the consumer threads\<close>

text \<open>
  The consumer threads append to the buffers while the merger thread flushes, and no lock
  is taken. \<^verbatim>\<open>list.extend\<close>, \<^verbatim>\<open>list.copy\<close>, \<^verbatim>\<open>len\<close> and \<^verbatim>\<open>list.clear\<close> each run as one step
  under the interpreter lock. An append is one call of \<open>add_customer_data\<close> or
  \<open>add_inventory_data\<close>.
\<close>

datatype append =
    AddCustomers "pyval list"
  | AddProducts "pyval list"

fun apply_append :: "append \<Rightarrow> merge_service \<Rightarrow> merge_service" where
  "apply_append (AddCustomers xs) ms = add_customer_data xs ms"
| "apply_append (AddProducts ys) ms = add_inventory_data ys ms"

definition appended :: "append list \<Rightarrow> merge_service \<Rightarrow> merge_service" where
  "appended as ms = foldl (\<lambda>m a. apply_append a m) ms as"

text \<open>The records a run of appends adds to each buffer.\<close>

fun customers_of :: "append list \<Rightarrow> pyval list" where
  "customers_of [] = []"
| "customers_of (AddCustomers xs # as) = xs @ customers_of as"
| "customers_of (AddProducts ys # as) = customers_of as"

fun products_of :: "append list \<Rightarrow> pyval list" where
  "products_of [] = []"
| "products_of (AddCustomers xs # as) = products_of as"
| "products_of (AddProducts ys # as) = ys @ products_of as"

text \<open>
  A flush among the consumers is given by the appends that fall between its steps: between
  the copy of the customers and the copy of the products, between that and the count of
  the customers, between the two counts, from there to the first \<^verbatim>\<open>clear\<close>, which is where
  the send happens, and between the two \<^verbatim>\<open>clear\<close> calls, which are only made after a send that
  reported success.
\<close>

record flush_appends =
  during_copy :: "append list"
  before_count :: "append list"
  during_count :: "append list"
  during_send :: "append list"
  during_clear :: "append list"

definition no_appends :: flush_appends where
  "no_appends = \<lparr>during_copy = [], before_count = [], during_count = [], during_send = [],
                 during_clear = []\<rparr>"

text \<open>
  \<open>create_analytics_payload\<close>, \<open>clear_buffers\<close> and \<open>_flush_to_analytics\<close> with the appends
  placed between their steps.
\<close>

definition create_analytics_payload_among ::
  "payload_stamp \<Rightarrow> flush_appends \<Rightarrow> merge_service \<Rightarrow> delivery_payload \<times> merge_service" where
  "create_analytics_payload_among st il ms =
     (let cs = customer_buffer ms;
          ms1 = appended (during_copy il) ms;
          ps = inventory_buffer ms1;
          ms2 = appended (before_count il) ms1;
          cc = length (customer_buffer ms2);
          ms3 = appended (during_count il) ms2;
          pc = length (inventory_buffer ms3)
      in (\<lparr>eventId = stamp_event_id st,
            timestamp = stamp_timestamp st,
            customers = cs,
            products = ps,
            meta = \<lparr>source = APP_NAME, version = APP_VERSION,
                     customerCount = cc, productCount = pc,
                     mergedAt = stamp_merged_at st\<rparr>\<rparr>, ms3))"

definition clear_buffers_among :: "flush_appends \<Rightarrow> merge_service \<Rightarrow> merge_service" where
  "clear_buffers_among il ms =
     (let ms1 = ms\<lparr>customer_buffer := []\<rparr>;
          ms2 = appended (during_clear il) ms1
      in ms2\<lparr>inventory_buffer := []\<rparr>)"

definition flush_to_analytics_among ::
  "analytics_service \<Rightarrow> payload_stamp \<Rightarrow> (delivery_payload \<Rightarrow> int \<Rightarrow> post_outcome)
     \<Rightarrow> flush_appends \<Rightarrow> merge_service \<Rightarrow> flush_result" where
  "flush_to_analytics_among svc st endpoint il ms =
     (let (payload, ms1) = create_analytics_payload_among st il ms;
          (success, tr) = send_analytics_data svc (endpoint payload);
          ms2 = appended (during_send il) ms1
      in \<lparr>flushed = payload, sent = success, trace = tr,
          after = (if success = Inr True then clear_buffers_among il ms2 else ms2)\<rparr>)"

section \<open>BaseConsumer\<close>

text \<open>
  The parsed message: what \<^verbatim>\<open>json.loads(msg.value().decode('utf-8'))\<close> returned. A field is
  \<open>None\<close> when the key is absent; \<open>messageId\<close> and \<open>eventType\<close> are strings when present,
  as the producer writes them. The value of a Kafka message is \<open>None\<close> when it does not
  decode to a JSON object, so that parsing or the first \<^verbatim>\<open>.get\<close> raises.
\<close>

record message_data =
  messageId :: "string option"
  eventType :: "string option"
  payload :: "pyval option"
  metadata :: "pyval option"

record kafka_message =
  msg_value :: "message_data option"
  msg_partition :: nat
  msg_offset :: nat

text \<open>
  \<^verbatim>\<open>message_data.get('messageId', 'unknown')\<close>, \<^verbatim>\<open>message_data.get('eventType', 'unknown')\<close>
  and \<^verbatim>\<open>message_data.get('payload', [])\<close>.
\<close>

definition message_id_of :: "message_data \<Rightarrow> string" where
  "message_id_of md = (case messageId md of None \<Rightarrow> ''unknown'' | Some i \<Rightarrow> i)"

definition event_type_of :: "message_data \<Rightarrow> string" where
  "event_type_of md = (case eventType md of None \<Rightarrow> ''unknown'' | Some e \<Rightarrow> e)"

definition payload_of :: "message_data \<Rightarrow> pyval" where
  "payload_of md = (case payload md of None \<Rightarrow> PList [] | Some p \<Rightarrow> p)"

text \<open>The four clock readings one call of \<open>_process_message\<close> can make, in the order made.\<close>

record clock_reads =
  t_lookup :: int
  t_scan :: int
  t_processed :: int
  t_expiry :: int

datatype cb_result =
    Returned bool
  | Raised

text \<open>
  The consumer, the idempotency service it holds and the state its callback works on.
  \<open>committed\<close> lists the messages \<^verbatim>\<open>consumer.commit\<close> was called with and \<open>cb_calls\<close> the
  messages the callback was called with; both are observations, the code keeps neither.
\<close>

record 's consumer =
  idem :: idempotency_service
  running :: bool
  messages_processed :: nat
  messages_skipped :: nat
  errors_count :: nat
  committed :: "kafka_message list"
  cb_calls :: "message_data list"
  app :: 's

definition consumer_init :: "idempotency_service \<Rightarrow> 's \<Rightarrow> 's consumer" where
  "consumer_init svc a =
     \<lparr>idem = svc, running = False, messages_processed = 0, messages_skipped = 0,
      errors_count = 0, committed = [], cb_calls = [], app = a\<rparr>"

text \<open>
  The tail both branches share: \<^verbatim>\<open>len(payload)\<close>, then \<open>mark_processed\<close>. Either can raise, and
  the \<^verbatim>\<open>except Exception\<close> clause turns that into \<^verbatim>\<open>False\<close>.
\<close>

definition record_message ::
  "clock_reads \<Rightarrow> string \<Rightarrow> string \<Rightarrow> pyval \<Rightarrow> string \<Rightarrow> 's consumer \<Rightarrow> bool \<times> 's consumer" where
  "record_message clk message_id et pl h s =
     (case py_len pl of
        None \<Rightarrow> (False, s)
      | Some n \<Rightarrow>
          (case mark_processed (t_processed clk) (t_expiry clk) message_id et n h (idem s) of
             Inl e \<Rightarrow> (False, s)
           | Inr svc \<Rightarrow> (True, s\<lparr>idem := svc\<rparr>)))"

definition process_message ::
  "clock_reads \<Rightarrow> kafka_message \<Rightarrow> (message_data \<Rightarrow> 's \<Rightarrow> cb_result \<times> 's) \<Rightarrow> 's consumer
     \<Rightarrow> bool \<times> 's consumer" where
  "process_message clk msg process_callback s =
     (case msg_value msg of
        None \<Rightarrow> (False, s)
      | Some md \<Rightarrow>
          let message_id = message_id_of md;
              et = event_type_of md;
              (dup, svc1) = is_processed (t_lookup clk) message_id (idem s);
              s1 = s\<lparr>idem := svc1\<rparr>
          in if dup then (True, s1\<lparr>messages_skipped := messages_skipped s1 + 1\<rparr>)
             else
               let pl = payload_of md;
                   h = get_payload_hash pl;
                   (dupc, svc2) = is_duplicate_content (t_scan clk) h svc1;
                   s2 = s1\<lparr>idem := svc2\<rparr>
               in if dupc then
                    record_message clk message_id et pl h
                      (s2\<lparr>messages_skipped := messages_skipped s2 + 1\<rparr>)
                  else
                    let (r, a) = process_callback md (app s2);
                        s3 = s2\<lparr>app := a, cb_calls := cb_calls s2 @ [md]\<rparr>
                    in case r of
                         Returned True \<Rightarrow> record_message clk message_id et pl h s3
                       | _ \<Rightarrow> (False, s3))"

datatype kafka_error =
    PARTITION_EOF
  | OtherKafkaError

definition handle_error :: "kafka_error \<Rightarrow> 's consumer \<Rightarrow> 's consumer" where
  "handle_error e s =
     (case e of PARTITION_EOF \<Rightarrow> s | OtherKafkaError \<Rightarrow> s\<lparr>errors_count := errors_count s + 1\<rparr>)"

definition stop :: "'s consumer \<Rightarrow> 's consumer" where
  "stop s = s\<lparr>running := False\<rparr>"

text \<open>
  What \<^verbatim>\<open>consumer.poll\<close> gives: nothing within the timeout, a message whose \<^verbatim>\<open>error()\<close> is
  set, a message, or a \<^verbatim>\<open>KafkaException\<close>. The commit call is taken to return.
\<close>

datatype poll_result =
    NoMessage
  | ErrorMessage kafka_error
  | Message kafka_message
  | PollRaises

text \<open>The body of the loop of \<open>consume\<close> for a poll that returned.\<close>

definition consume_step ::
  "(message_data \<Rightarrow> 's \<Rightarrow> cb_result \<times> 's) \<Rightarrow> poll_result \<times> clock_reads \<Rightarrow> 's consumer
     \<Rightarrow> 's consumer" where
  "consume_step process_callback ev s =
     (case fst ev of
        NoMessage \<Rightarrow> s
      | ErrorMessage e \<Rightarrow> handle_error e s
      | Message msg \<Rightarrow>
          let (success, s1) = process_message (snd ev) msg process_callback s
          in if success
             then s1\<lparr>committed := committed s1 @ [msg],
                     messages_processed := messages_processed s1 + 1\<rparr>
             else s1\<lparr>errors_count := errors_count s1 + 1\<rparr>
      | PollRaises \<Rightarrow> s)"

text \<open>
  The loop over the polls of a run. It ends when the polls given are used up, which is the
  stop requested from outside, or at a \<^verbatim>\<open>KafkaException\<close>.
\<close>

fun consume_loop ::
  "(message_data \<Rightarrow> 's \<Rightarrow> cb_result \<times> 's) \<Rightarrow> (poll_result \<times> clock_reads) list \<Rightarrow> 's consumer
     \<Rightarrow> 's consumer" where
  "consume_loop process_callback [] s = s"
| "consume_loop process_callback (ev # evs) s =
     (if fst ev = PollRaises then s
      else consume_loop process_callback evs (consume_step process_callback ev s))"

definition consume ::
  "(message_data \<Rightarrow> 's \<Rightarrow> cb_result \<times> 's) \<Rightarrow> (poll_result \<times> clock_reads) list \<Rightarrow> 's consumer
     \<Rightarrow> 's consumer" where
  "consume process_callback evs s = stop (consume_loop process_callback evs (s\<lparr>running := True\<rparr>))"

section \<open>CustomerConsumer and InventoryConsumer\<close>

text \<open>
  The two callbacks. \<^verbatim>\<open>metadata.get\<close> raises when the metadata is not a dict and \<^verbatim>\<open>len\<close> when
  the payload has no length; both are caught and the callback returns \<^verbatim>\<open>False\<close>. The payload
  is added when it is not empty.
\<close>

fun is_dict :: "pyval \<Rightarrow> bool" where
  "is_dict (PDict kvs) = True"
| "is_dict _ = False"

definition process_customer_message :: "message_data \<Rightarrow> merge_service \<Rightarrow> cb_result \<times> merge_service" where
  "process_customer_message md ms =
     (let pl = payload_of md;
          md_ok = (case metadata md of None \<Rightarrow> True | Some m \<Rightarrow> is_dict m)
      in if \<not> md_ok then (Returned False, ms)
         else case py_len pl of
                None \<Rightarrow> (Returned False, ms)
              | Some n \<Rightarrow>
                  if 0 < n then
                    (case py_iter pl of
                       None \<Rightarrow> (Returned False, ms)
                     | Some xs \<Rightarrow> (Returned True, add_customer_data xs ms))
                  else (Returned True, ms))"

definition process_inventory_message :: "message_data \<Rightarrow> merge_service \<Rightarrow> cb_result \<times> merge_service" where
  "process_inventory_message md ms =
     (let pl = payload_of md;
          md_ok = (case metadata md of None \<Rightarrow> True | Some m \<Rightarrow> is_dict m)
      in if \<not> md_ok then (Returned False, ms)
         else case py_len pl of
                None \<Rightarrow> (Returned False, ms)
              | Some n \<Rightarrow>
                  if 0 < n then
                    (case py_iter pl of
                       None \<Rightarrow> (Returned False, ms)
                     | Some xs \<Rightarrow> (Returned True, add_inventory_data xs ms))
                  else (Returned True, ms))"

section \<open>Notions the properties are stated with\<close>

text \<open>The keys whose entry has expired at \<open>now\<close>: what \<open>cleanup_expired\<close> deletes.\<close>

definition expired_keys :: "int \<Rightarrow> idempotency_service \<Rightarrow> string set" where
  "expired_keys now svc = fst ` {kv \<in> set (cache svc). expires_at (snd kv) < now}"

text \<open>The identities and the payload hashes the cache holds, expired or not.\<close>

definition known_ids :: "idempotency_service \<Rightarrow> string set" where
  "known_ids svc = fst ` set (cache svc)"

definition known_hashes :: "idempotency_service \<Rightarrow> string set" where
  "known_hashes svc = (\<lambda>kv. payload_hash (snd kv)) ` set (cache svc)"

text \<open>The cache after the two expiry sweeps one call of \<open>_process_message\<close> can make.\<close>

definition swept :: "clock_reads \<Rightarrow> idempotency_service \<Rightarrow> idempotency_service" where
  "swept clk svc = cleanup_expired (t_scan clk) (cleanup_expired (t_lookup clk) svc)"

text \<open>A run of \<open>mark_processed\<close> calls, each given as its two clock readings and its arguments.\<close>

fun mark_all ::
  "(int \<times> int \<times> string \<times> string \<times> nat \<times> string) list \<Rightarrow> idempotency_service
     \<Rightarrow> py_exception + idempotency_service" where
  "mark_all [] svc = Inr svc"
| "mark_all ((now1, now2, k, et, rc, h) # cs) svc =
     (case mark_processed now1 now2 k et rc h svc of
        Inl e \<Rightarrow> Inl e
      | Inr svc' \<Rightarrow> mark_all cs svc')"


text \<open>
  An endpoint that gives the listed outcomes to the first calls and fails to connect
  afterwards; \<open>answers\<close> is such an endpoint for any payload.
\<close>

definition outcomes :: "post_outcome list \<Rightarrow> int \<Rightarrow> post_outcome" where
  "outcomes rs n = (if 1 \<le> n \<and> nat n \<le> length rs then rs ! (nat n - 1) else RequestException)"

definition answers :: "post_outcome list \<Rightarrow> delivery_payload \<Rightarrow> int \<Rightarrow> post_outcome" where
  "answers rs p = outcomes rs"


text \<open>
  The polls a run handles are those before the first \<^verbatim>\<open>KafkaException\<close>. Among them, the
  fetched messages, the Kafka errors that are counted, and whether every fetched payload
  has a length. \<open>run\<close> is the consumer after \<open>consume\<close> has handled the polls given, started
  on a new consumer.
\<close>

definition handled :: "(poll_result \<times> clock_reads) list \<Rightarrow> poll_result list" where
  "handled evs = takeWhile (\<lambda>r. r \<noteq> PollRaises) (map fst evs)"

fun is_message :: "poll_result \<Rightarrow> bool" where
  "is_message (Message msg) = True"
| "is_message _ = False"

definition fetched :: "(poll_result \<times> clock_reads) list \<Rightarrow> nat" where
  "fetched evs = length (filter is_message (handled evs))"

definition kafka_errors :: "(poll_result \<times> clock_reads) list \<Rightarrow> nat" where
  "kafka_errors evs = length (filter (\<lambda>r. r = ErrorMessage OtherKafkaError) (handled evs))"

fun sized_payload :: "poll_result \<Rightarrow> bool" where
  "sized_payload (Message msg) =
     (case msg_value msg of None \<Rightarrow> True | Some md \<Rightarrow> py_len (payload_of md) \<noteq> None)"
| "sized_payload _ = True"

definition sized_payloads :: "(poll_result \<times> clock_reads) list \<Rightarrow> bool" where
  "sized_payloads evs = list_all sized_payload (handled evs)"

definition run ::
  "(message_data \<Rightarrow> 's \<Rightarrow> cb_result \<times> 's) \<Rightarrow> (poll_result \<times> clock_reads) list
     \<Rightarrow> idempotency_service \<Rightarrow> 's \<Rightarrow> 's consumer" where
  "run cb evs svc a = consume_loop cb evs ((consumer_init svc a)\<lparr>running := True\<rparr>)"

text \<open>Data of the examples.\<close>

definition default_retry :: analytics_service where
  "default_retry = \<lparr>max_retries = 3, backoff_base = 1, backoff_multiplier = 2\<rparr>"

definition stamp_1 :: payload_stamp where
  "stamp_1 = \<lparr>stamp_event_id = ''EVT-20240208100000-0a1b2c3d'',
              stamp_timestamp = ''2024-02-08T10:00:00Z'', stamp_merged_at = ''2024-02-08T10:00:00Z''\<rparr>"

definition stamp_2 :: payload_stamp where
  "stamp_2 = \<lparr>stamp_event_id = ''EVT-20240208100030-4e5f6a7b'',
              stamp_timestamp = ''2024-02-08T10:00:30Z'', stamp_merged_at = ''2024-02-08T10:00:30Z''\<rparr>"

definition customer_c1 :: pyval where
  "customer_c1 = PDict [(''id'', PStr ''c1'')]"

definition product_p1 :: pyval where
  "product_p1 = PDict [(''id'', PStr ''p1'')]"

definition clock_at :: "int \<Rightarrow> clock_reads" where
  "clock_at t = \<lparr>t_lookup = t, t_scan = t, t_processed = t, t_expiry = t\<rparr>"

definition sync_metadata :: pyval where
  "sync_metadata = PDict [(''syncType'', PStr ''INITIAL_FULL''), (''recordCount'', PInt 1)]"

definition md_m1 :: message_data where
  "md_m1 = \<lparr>messageId = Some ''m1'', eventType = Some ''CUSTOMER'',
            payload = Some (PList [customer_c1]), metadata = Some sync_metadata\<rparr>"

definition md_m2 :: message_data where
  "md_m2 = \<lparr>messageId = Some ''m2'', eventType = Some ''CUSTOMER'',
            payload = Some (PList [customer_c1]), metadata = Some sync_metadata\<rparr>"

definition md_known :: message_data where
  "md_known = \<lparr>messageId = Some ''msg-1'', eventType = Some ''CUSTOMER'',
               payload = Some (PList [customer_c1]), metadata = Some sync_metadata\<rparr>"

definition md_broken :: message_data where
  "md_broken = \<lparr>messageId = Some ''m3'', eventType = Some ''CUSTOMER'',
                payload = Some (PList [customer_c1]), metadata = Some PNone\<rparr>"

definition md_empty_1 :: message_data where
  "md_empty_1 = \<lparr>messageId = Some ''e1'', eventType = Some ''CUSTOMER'',
                 payload = Some (PList []), metadata = Some sync_metadata\<rparr>"

definition md_empty_2 :: message_data where
  "md_empty_2 = \<lparr>messageId = Some ''e2'', eventType = Some ''INVENTORY'',
                 payload = None, metadata = None\<rparr>"

definition at_offset :: "nat \<Rightarrow> message_data option \<Rightarrow> kafka_message" where
  "at_offset n v = \<lparr>msg_value = v, msg_partition = 0, msg_offset = n\<rparr>"

definition small_cache :: idempotency_service where
  "small_cache = \<lparr>cache = [], max_size = 3, ttl_seconds = 3600\<rparr>"

definition full_cache :: idempotency_service where
  "full_cache =
     \<lparr>cache = [(''msg-1'', new_entry 0 0 ''CUSTOMER'' 1 ''hash1'' small_cache),
               (''msg-2'', new_entry 0 0 ''CUSTOMER'' 1 ''hash2'' small_cache),
               (''msg-3'', new_entry 0 0 ''CUSTOMER'' 1 ''hash3'' small_cache)],
      max_size = 3, ttl_seconds = 3600\<rparr>"

text \<open>A cache that holds one entry, for a message with an empty payload.\<close>

definition cache_with_empty :: idempotency_service where
  "cache_with_empty =
     \<lparr>cache = [(''e1'', new_entry 0 0 ''CUSTOMER'' 0 (get_payload_hash (PList [])) small_cache)],
      max_size = 3, ttl_seconds = 3600\<rparr>"

text \<open>A payload with the items of every dict sorted by key, stably.\<close>

primrec key_sorted :: "pyval \<Rightarrow> pyval" where
  "key_sorted PNone = PNone"
| "key_sorted (PBool b) = PBool b"
| "key_sorted (PInt i) = PInt i"
| "key_sorted (PFloat r) = PFloat r"
| "key_sorted (PStr s) = PStr s"
| "key_sorted (PList xs) = PList (map key_sorted xs)"
| "key_sorted (PDict kvs) = PDict (sort_key fst (map (map_prod id key_sorted) kvs))"
| "key_sorted (POther s) = POther s"



definition send_appends :: "append list \<Rightarrow> flush_appends" where
  "send_appends as = no_appends\<lparr>during_send := as\<rparr>"

definition one_slot_cache :: idempotency_service where
  "one_slot_cache = \<lparr>cache = [], max_size = 1, ttl_seconds = 3600\<rparr>"

section \<open>The idempotency cache\<close>

lemma delete_filter: "AList.delete k c = filter (\<lambda>kv. fst kv \<noteq> k) c"
  by (induction c) auto

lemma foldl_delete_filter:
  "foldl (\<lambda>c k. AList.delete k c) c ks = filter (\<lambda>kv. fst kv \<notin> set ks) c"
proof (induction ks arbitrary: c)
  case Nil
  then show ?case by simp
next
  case (Cons k ks)
  have "foldl (\<lambda>c k. AList.delete k c) (AList.delete k c) ks =
        filter (\<lambda>kv. fst kv \<notin> set ks) (AList.delete k c)"
    by (rule Cons.IH)
  also have "\<dots> = filter (\<lambda>kv. fst kv \<notin> set (k # ks)) c"
    by (induction c) auto
  finally show ?case by simp
qed

lemma cache_cleanup:
  "cache (cleanup_expired now svc) = filter (\<lambda>kv. fst kv \<notin> expired_keys now svc) (cache svc)"
  by (simp add: cleanup_expired_def foldl_delete_filter expired_keys_def)

lemma cleanup_fields [simp]:
  "max_size (cleanup_expired now svc) = max_size svc"
  "ttl_seconds (cleanup_expired now svc) = ttl_seconds svc"
  by (simp_all add: cleanup_expired_def)

lemma update_absent: "k \<notin> fst ` set al \<Longrightarrow> AList.update k v al = al @ [(k, v)]"
  by (induction al) auto

lemma mark_processed_room:
  "int (length (cache svc)) < max_size svc \<Longrightarrow>
   mark_processed now1 now2 mid et rc h svc =
     Inr (svc\<lparr>cache := AList.update mid (new_entry now1 now2 et rc h svc) (cache svc)\<rparr>)"
  by (simp add: mark_processed_def)

lemma mark_processed_full:
  "max_size svc \<le> int (length (cache svc)) \<Longrightarrow> cache svc = oldest # rest \<Longrightarrow>
   mark_processed now1 now2 mid et rc h svc =
     Inr (svc\<lparr>cache := AList.update mid (new_entry now1 now2 et rc h svc)
                           (filter (\<lambda>kv. fst kv \<noteq> fst oldest) rest)\<rparr>)"
  by (simp add: mark_processed_def delete_filter)

lemma map_of_filter_other:
  "k \<noteq> k' \<Longrightarrow> map_of (filter (\<lambda>kv. fst kv \<noteq> k') al) k = map_of al k"
  by (induction al) auto

lemma evict_oldest:
  assumes ne: "cache svc = oldest # rest" and cap: "max_size svc \<le> int (length (cache svc))"
  shows "\<exists>svc'. mark_processed now1 now2 mid et rc h svc = Inr svc' \<and>
           map_of (cache svc') mid = Some (new_entry now1 now2 et rc h svc) \<and>
           (fst oldest \<noteq> mid \<longrightarrow> fst oldest \<notin> fst ` set (cache svc')) \<and>
           (\<forall>k. k \<noteq> mid \<and> k \<noteq> fst oldest \<longrightarrow> map_of (cache svc') k = map_of (cache svc) k) \<and>
           (mid \<notin> fst ` set rest \<longrightarrow>
              cache svc' = filter (\<lambda>kv. fst kv \<noteq> fst oldest) rest @
                             [(mid, new_entry now1 now2 et rc h svc)])"
proof -
  let ?e = "new_entry now1 now2 et rc h svc"
  let ?kept = "filter (\<lambda>kv. fst kv \<noteq> fst oldest) rest"
  let ?svc' = "svc\<lparr>cache := AList.update mid ?e ?kept\<rparr>"
  have m: "mark_processed now1 now2 mid et rc h svc = Inr ?svc'"
    using mark_processed_full [OF cap ne] .
  have a: "map_of (cache ?svc') mid = Some ?e"
    by (simp add: update_conv')
  have b: "fst oldest \<noteq> mid \<longrightarrow> fst oldest \<notin> fst ` set (cache ?svc')"
    by (auto simp: dom_update)
  have c: "\<forall>k. k \<noteq> mid \<and> k \<noteq> fst oldest \<longrightarrow> map_of (cache ?svc') k = map_of (cache svc) k"
    by (auto simp: update_conv' ne map_of_filter_other)
  have d: "mid \<notin> fst ` set rest \<longrightarrow> cache ?svc' = ?kept @ [(mid, ?e)]"
    by (auto intro!: update_absent)
  show ?thesis
    using m a b c d by blast
qed

lemma four_into_three:
  assumes "cache svc0 = []" and "max_size svc0 = 3"
    and "distinct [k1, k2, k3, k4]"
    and "t \<le> b2 + ttl_seconds svc0 * 1000000"
    and "t \<le> b3 + ttl_seconds svc0 * 1000000"
    and "t \<le> b4 + ttl_seconds svc0 * 1000000"
  shows "\<exists>svc4. mark_all [(a1, b1, k1, e1, r1, h1), (a2, b2, k2, e2, r2, h2),
                          (a3, b3, k3, e3, r3, h3), (a4, b4, k4, e4, r4, h4)] svc0 = Inr svc4 \<and>
           \<not> fst (is_processed t k1 svc4) \<and> fst (is_processed t k2 svc4) \<and>
           fst (is_processed t k3 svc4) \<and> fst (is_processed t k4 svc4)"
proof -
  let ?svc4 = "svc0\<lparr>cache := [(k2, new_entry a2 b2 e2 r2 h2 svc0),
              (k3, new_entry a3 b3 e3 r3 h3 svc0), (k4, new_entry a4 b4 e4 r4 h4 svc0)]\<rparr>"
  have "mark_all [(a1, b1, k1, e1, r1, h1), (a2, b2, k2, e2, r2, h2),
                  (a3, b3, k3, e3, r3, h3), (a4, b4, k4, e4, r4, h4)] svc0 = Inr ?svc4"
    using assms(1-3) by (auto simp: mark_processed_def new_entry_def)
  moreover have "\<not> fst (is_processed t k1 ?svc4) \<and> fst (is_processed t k2 ?svc4) \<and>
           fst (is_processed t k3 ?svc4) \<and> fst (is_processed t k4 ?svc4)"
    using assms(3-6) by (simp add: is_processed_def cleanup_expired_def new_entry_def)
  ultimately show ?thesis by blast
qed

text \<open>
  C7: a \<open>mark_processed\<close> call on a cache at capacity evicts the oldest-inserted entry and no
  other, then stores the new entry, whose \<open>expires_at\<close> is the clock reading plus the TTL.
  The entries kept stay in insertion order and the new identity goes last. With a limit of
  3, marking 4 distinct identities in an empty cache leaves the first one unknown and the
  other three known, as long as these have not expired.
\<close>

theorem C7_eviction_at_capacity:
  "(cache svc = oldest # rest \<and> max_size svc \<le> int (length (cache svc)) \<longrightarrow>
      (\<exists>svc'. mark_processed now1 now2 mid et rc h svc = Inr svc' \<and>
           map_of (cache svc') mid = Some (new_entry now1 now2 et rc h svc) \<and>
           expires_at (new_entry now1 now2 et rc h svc) = now2 + ttl_seconds svc * 1000000 \<and>
           (fst oldest \<noteq> mid \<longrightarrow> fst oldest \<notin> fst ` set (cache svc')) \<and>
           (\<forall>k. k \<noteq> mid \<and> k \<noteq> fst oldest \<longrightarrow> map_of (cache svc') k = map_of (cache svc) k) \<and>
           (mid \<notin> fst ` set rest \<longrightarrow>
              cache svc' = filter (\<lambda>kv. fst kv \<noteq> fst oldest) rest @
                             [(mid, new_entry now1 now2 et rc h svc)]))) \<and>
   (cache svc0 = [] \<and> max_size svc0 = 3 \<and> distinct [k1, k2, k3, k4] \<and>
    t \<le> b2 + ttl_seconds svc0 * 1000000 \<and> t \<le> b3 + ttl_seconds svc0 * 1000000 \<and>
    t \<le> b4 + ttl_seconds svc0 * 1000000 \<longrightarrow>
      (\<exists>svc4. mark_all [(a1, b1, k1, e1, r1, h1), (a2, b2, k2, e2, r2, h2),
                         (a3, b3, k3, e3, r3, h3), (a4, b4, k4, e4, r4, h4)] svc0 = Inr svc4 \<and>
           \<not> fst (is_processed t k1 svc4) \<and> fst (is_processed t k2 svc4) \<and>
           fst (is_processed t k3 svc4) \<and> fst (is_processed t k4 svc4)))"
proof (intro conjI impI)
  assume h: "cache svc = oldest # rest \<and> max_size svc \<le> int (length (cache svc))"
  show "\<exists>svc'. mark_processed now1 now2 mid et rc h svc = Inr svc' \<and>
           map_of (cache svc') mid = Some (new_entry now1 now2 et rc h svc) \<and>
           expires_at (new_entry now1 now2 et rc h svc) = now2 + ttl_seconds svc * 1000000 \<and>
           (fst oldest \<noteq> mid \<longrightarrow> fst oldest \<notin> fst ` set (cache svc')) \<and>
           (\<forall>k. k \<noteq> mid \<and> k \<noteq> fst oldest \<longrightarrow> map_of (cache svc') k = map_of (cache svc) k) \<and>
           (mid \<notin> fst ` set rest \<longrightarrow>
              cache svc' = filter (\<lambda>kv. fst kv \<noteq> fst oldest) rest @
                             [(mid, new_entry now1 now2 et rc h svc)])"
  proof -
    have e: "expires_at (new_entry now1 now2 et rc h svc) = now2 + ttl_seconds svc * 1000000"
      by (simp add: new_entry_def)
    from h have h1: "cache svc = oldest # rest" and h2: "max_size svc \<le> int (length (cache svc))"
      by blast+
    show ?thesis
      using evict_oldest [OF h1 h2, of now1 now2 mid et rc h] e by blast
  qed
next
  assume "cache svc0 = [] \<and> max_size svc0 = 3 \<and> distinct [k1, k2, k3, k4] \<and>
    t \<le> b2 + ttl_seconds svc0 * 1000000 \<and> t \<le> b3 + ttl_seconds svc0 * 1000000 \<and>
    t \<le> b4 + ttl_seconds svc0 * 1000000"
  then show "\<exists>svc4. mark_all [(a1, b1, k1, e1, r1, h1), (a2, b2, k2, e2, r2, h2),
                         (a3, b3, k3, e3, r3, h3), (a4, b4, k4, e4, r4, h4)] svc0 = Inr svc4 \<and>
           \<not> fst (is_processed t k1 svc4) \<and> fst (is_processed t k2 svc4) \<and>
           fst (is_processed t k3 svc4) \<and> fst (is_processed t k4 svc4)"
    using four_into_three [of svc0 k1 k2 k3 k4 t b2 b3 b4] by blast
qed

theorem C7_witness:
  "(\<exists>svc'. mark_processed 5 5 ''msg-4'' ''CUSTOMER'' 1 ''hash4'' full_cache = Inr svc' \<and>
       map_of (cache svc') ''msg-4'' = Some (new_entry 5 5 ''CUSTOMER'' 1 ''hash4'' full_cache) \<and>
       ''msg-1'' \<notin> fst ` set (cache svc') \<and>
       map_of (cache svc') ''msg-2'' = map_of (cache full_cache) ''msg-2'') \<and>
   (\<exists>svc4. mark_all [(1, 1, ''msg-1'', ''CUSTOMER'', 1, ''hash1''),
                      (2, 2, ''msg-2'', ''CUSTOMER'', 1, ''hash2''),
                      (3, 3, ''msg-3'', ''CUSTOMER'', 1, ''hash3''),
                      (4, 4, ''msg-4'', ''CUSTOMER'', 1, ''hash4'')] small_cache = Inr svc4 \<and>
       \<not> fst (is_processed 5 ''msg-1'' svc4) \<and> fst (is_processed 5 ''msg-2'' svc4) \<and>
       fst (is_processed 5 ''msg-3'' svc4) \<and> fst (is_processed 5 ''msg-4'' svc4))"
proof -
  let ?o = "(''msg-1'', new_entry 0 0 ''CUSTOMER'' 1 ''hash1'' small_cache)"
  let ?r = "[(''msg-2'', new_entry 0 0 ''CUSTOMER'' 1 ''hash2'' small_cache),
             (''msg-3'', new_entry 0 0 ''CUSTOMER'' 1 ''hash3'' small_cache)]"
  have h1: "cache full_cache = ?o # ?r \<and> max_size full_cache \<le> int (length (cache full_cache))"
    by (simp add: full_cache_def)
  have h2: "cache small_cache = [] \<and> max_size small_cache = 3 \<and>
      distinct [''msg-1'', ''msg-2'', ''msg-3'', ''msg-4''] \<and>
      (5::int) \<le> 2 + ttl_seconds small_cache * 1000000 \<and>
      (5::int) \<le> 3 + ttl_seconds small_cache * 1000000 \<and>
      (5::int) \<le> 4 + ttl_seconds small_cache * 1000000"
    by (simp add: small_cache_def)
  note t = C7_eviction_at_capacity [of full_cache ?o ?r
      5 5 "''msg-4''" "''CUSTOMER''" 1 "''hash4''"
      small_cache "''msg-1''" "''msg-2''" "''msg-3''" "''msg-4''" 5 2 3 4
      1 1 "''CUSTOMER''" 1 "''hash1''" 2 "''CUSTOMER''" 1 "''hash2''"
      3 "''CUSTOMER''" 1 "''hash3''" 4 "''CUSTOMER''" 1 "''hash4''"]
  from t h1 obtain svc' where
      a: "mark_processed 5 5 ''msg-4'' ''CUSTOMER'' 1 ''hash4'' full_cache = Inr svc'"
        "map_of (cache svc') ''msg-4'' = Some (new_entry 5 5 ''CUSTOMER'' 1 ''hash4'' full_cache)"
        "fst ?o \<noteq> ''msg-4'' \<longrightarrow> fst ?o \<notin> fst ` set (cache svc')"
        "\<forall>k. k \<noteq> ''msg-4'' \<and> k \<noteq> fst ?o \<longrightarrow> map_of (cache svc') k = map_of (cache full_cache) k"
    by blast
  have b: "''msg-1'' \<notin> fst ` set (cache svc')"
    using a(3) by simp
  have c: "map_of (cache svc') ''msg-2'' = map_of (cache full_cache) ''msg-2''"
    using a(4) by simp
  from t h2 have d: "\<exists>svc4. mark_all [(1, 1, ''msg-1'', ''CUSTOMER'', 1, ''hash1''),
                      (2, 2, ''msg-2'', ''CUSTOMER'', 1, ''hash2''),
                      (3, 3, ''msg-3'', ''CUSTOMER'', 1, ''hash3''),
                      (4, 4, ''msg-4'', ''CUSTOMER'', 1, ''hash4'')] small_cache = Inr svc4 \<and>
       \<not> fst (is_processed 5 ''msg-1'' svc4) \<and> fst (is_processed 5 ''msg-2'' svc4) \<and>
       fst (is_processed 5 ''msg-3'' svc4) \<and> fst (is_processed 5 ''msg-4'' svc4)"
    by blast
  show ?thesis
    using a(1,2) b c d by blast
qed

section \<open>The flush and its retries\<close>



lemma send_client_error:
  assumes "1 \<le> max_retries svc" "post 1 = HTTPError status" "400 \<le> status" "status < 500"
  shows "send_analytics_data svc post = (Inr False, [Attempt 1])"
proof -
  have u: "[1..max_retries svc] = 1 # [2..max_retries svc]"
    using assms(1) by (simp add: upto_rec1)
  show ?thesis
    using assms unfolding send_analytics_data_def u by simp
qed





















lemma flush_after:
  "after (flush_to_analytics svc st endpoint ms) =
     (if sent (flush_to_analytics svc st endpoint ms) = Inr True then clear_buffers ms else ms)"
  by (simp add: create_analytics_payload_def flush_to_analytics_def Let_def split: prod.splits)

lemma flush_flushed:
  "customers (flushed (flush_to_analytics svc st endpoint ms)) = customer_buffer ms"
  "products (flushed (flush_to_analytics svc st endpoint ms)) = inventory_buffer ms"
  by (simp_all add: create_analytics_payload_def flush_to_analytics_def Let_def split: prod.splits)

lemma appended_Nil [simp]: "appended [] ms = ms"
  by (simp add: appended_def)

lemma appended_Cons [simp]: "appended (a # as) ms = appended as (apply_append a ms)"
  by (simp add: appended_def)

lemma appended_append: "appended (as @ bs) ms = appended bs (appended as ms)"
  by (simp add: appended_def)

lemma customers_of_append: "customers_of (as @ bs) = customers_of as @ customers_of bs"
  by (induction as rule: customers_of.induct) simp_all

lemma products_of_append: "products_of (as @ bs) = products_of as @ products_of bs"
  by (induction as rule: products_of.induct) simp_all

lemma appended_buffers:
  "customer_buffer (appended as ms) = customer_buffer ms @ customers_of as"
  "inventory_buffer (appended as ms) = inventory_buffer ms @ products_of as"
proof -
  show "customer_buffer (appended as ms) = customer_buffer ms @ customers_of as"
  proof (induction as arbitrary: ms)
    case Nil
    then show ?case by simp
  next
    case (Cons a as)
    then show ?case
      by (cases a) (simp_all add: add_customer_data_def add_inventory_data_def)
  qed
  show "inventory_buffer (appended as ms) = inventory_buffer ms @ products_of as"
  proof (induction as arbitrary: ms)
    case Nil
    then show ?case by simp
  next
    case (Cons a as)
    then show ?case
      by (cases a) (simp_all add: add_customer_data_def add_inventory_data_def)
  qed
qed

lemma payload_among:
  "customers (fst (create_analytics_payload_among st il ms)) = customer_buffer ms"
  "products (fst (create_analytics_payload_among st il ms)) =
     inventory_buffer ms @ products_of (during_copy il)"
  "customerCount (meta (fst (create_analytics_payload_among st il ms))) =
     length (customer_buffer ms) + length (customers_of (during_copy il @ before_count il))"
  "productCount (meta (fst (create_analytics_payload_among st il ms))) =
     length (inventory_buffer ms) +
     length (products_of (during_copy il @ before_count il @ during_count il))"
  "snd (create_analytics_payload_among st il ms) =
     appended (during_copy il @ before_count il @ during_count il) ms"
  by (simp_all add: create_analytics_payload_among_def Let_def appended_buffers appended_append
      customers_of_append products_of_append)

lemma flush_among_fields:
  "flushed (flush_to_analytics_among svc st endpoint il ms) =
     fst (create_analytics_payload_among st il ms)"
  "sent (flush_to_analytics_among svc st endpoint il ms) =
     fst (send_analytics_data svc (endpoint (fst (create_analytics_payload_among st il ms))))"
  "after (flush_to_analytics_among svc st endpoint il ms) =
     (if sent (flush_to_analytics_among svc st endpoint il ms) = Inr True
      then clear_buffers_among il
        (appended (during_copy il @ before_count il @ during_count il @ during_send il) ms)
      else appended (during_copy il @ before_count il @ during_count il @ during_send il) ms)"
  by (simp_all add: flush_to_analytics_among_def Let_def split_beta payload_among appended_append)

lemma cleared_among:
  "customer_buffer (clear_buffers_among il ms) = customers_of (during_clear il)"
  "inventory_buffer (clear_buffers_among il ms) = []"
  by (simp_all add: clear_buffers_among_def Let_def appended_buffers)

lemma flush_among_none:
  "flush_to_analytics_among svc st endpoint no_appends ms = flush_to_analytics svc st endpoint ms"
  by (simp add: flush_to_analytics_among_def flush_to_analytics_def
      create_analytics_payload_among_def create_analytics_payload_def clear_buffers_among_def
      clear_buffers_def no_appends_def Let_def split_beta)

text \<open>
  C4, as the code has it. \<open>create_analytics_payload\<close> copies the customer sequence and then
  the product sequence and removes nothing: when the payload is submitted the buffer
  holds what it held, and what was appended since. \<open>clear_buffers\<close> runs only after the
  send reported success, and then both sequences are emptied: what is left is what was
  appended to the customer sequence after it was cleared. A record appended after its
  sequence was copied and before it was cleared is in neither the payload nor the buffer
  afterwards, and so in no later payload. When the send did not report success nothing is
  removed. The sequences of a payload are made of whole appends: those of the next flush
  are the buffer the flush before left, followed by what was appended since.
\<close>

theorem C4_copy_then_send_then_clear:
  "customers (flushed (flush_to_analytics_among svc st endpoint il ms)) = customer_buffer ms \<and>
   products (flushed (flush_to_analytics_among svc st endpoint il ms)) =
     inventory_buffer ms @ products_of (during_copy il) \<and>
   snd (create_analytics_payload_among st il ms) =
     appended (during_copy il @ before_count il @ during_count il) ms \<and>
   customer_buffer (snd (create_analytics_payload_among st il ms)) =
     customer_buffer ms @ customers_of (during_copy il @ before_count il @ during_count il) \<and>
   inventory_buffer (snd (create_analytics_payload_among st il ms)) =
     inventory_buffer ms @ products_of (during_copy il @ before_count il @ during_count il) \<and>
   (sent (flush_to_analytics_among svc st endpoint il ms) = Inr True \<longrightarrow>
      customer_buffer (after (flush_to_analytics_among svc st endpoint il ms)) =
        customers_of (during_clear il) \<and>
      inventory_buffer (after (flush_to_analytics_among svc st endpoint il ms)) = [] \<and>
      customers (flushed (flush_to_analytics_among svc2 st2 endpoint2 il2
          (appended later (after (flush_to_analytics_among svc st endpoint il ms))))) =
        customers_of (during_clear il @ later) \<and>
      products (flushed (flush_to_analytics_among svc2 st2 endpoint2 il2
          (appended later (after (flush_to_analytics_among svc st endpoint il ms))))) =
        products_of (later @ during_copy il2)) \<and>
   (sent (flush_to_analytics_among svc st endpoint il ms) \<noteq> Inr True \<longrightarrow>
      after (flush_to_analytics_among svc st endpoint il ms) =
        appended (during_copy il @ before_count il @ during_count il @ during_send il) ms \<and>
      customers (flushed (flush_to_analytics_among svc2 st2 endpoint2 il2
          (appended later (after (flush_to_analytics_among svc st endpoint il ms))))) =
        customer_buffer ms @
        customers_of (during_copy il @ before_count il @ during_count il @ during_send il @ later)) \<and>
   flush_to_analytics_among svc st endpoint no_appends ms = flush_to_analytics svc st endpoint ms \<and>
   (sent (flush_to_analytics svc st endpoint ms) = Inr True \<longrightarrow>
      after (flush_to_analytics svc st endpoint ms) =
        \<lparr>customer_buffer = [], inventory_buffer = []\<rparr>)"
proof -
  let ?f = "flush_to_analytics_among svc st endpoint il ms"
  have 1: "customers (flushed ?f) = customer_buffer ms"
    "products (flushed ?f) = inventory_buffer ms @ products_of (during_copy il)"
    by (simp_all add: flush_among_fields payload_among)
  have 2: "snd (create_analytics_payload_among st il ms) =
     appended (during_copy il @ before_count il @ during_count il) ms"
    "customer_buffer (snd (create_analytics_payload_among st il ms)) =
     customer_buffer ms @ customers_of (during_copy il @ before_count il @ during_count il)"
    "inventory_buffer (snd (create_analytics_payload_among st il ms)) =
     inventory_buffer ms @ products_of (during_copy il @ before_count il @ during_count il)"
    by (simp_all add: payload_among appended_buffers)
  have 3: "customer_buffer (after ?f) = customers_of (during_clear il) \<and>
      inventory_buffer (after ?f) = [] \<and>
      customers (flushed (flush_to_analytics_among svc2 st2 endpoint2 il2
          (appended later (after ?f)))) = customers_of (during_clear il @ later) \<and>
      products (flushed (flush_to_analytics_among svc2 st2 endpoint2 il2
          (appended later (after ?f)))) = products_of (later @ during_copy il2)"
    if "sent ?f = Inr True"
    using that
    by (simp add: flush_among_fields payload_among cleared_among appended_buffers
        customers_of_append products_of_append)
  have 4: "after ?f =
        appended (during_copy il @ before_count il @ during_count il @ during_send il) ms \<and>
      customers (flushed (flush_to_analytics_among svc2 st2 endpoint2 il2
          (appended later (after ?f)))) =
        customer_buffer ms @
        customers_of (during_copy il @ before_count il @ during_count il @ during_send il @ later)"
    if "sent ?f \<noteq> Inr True"
    using that
    by (simp add: flush_among_fields payload_among appended_buffers customers_of_append)
  have 5: "flush_to_analytics_among svc st endpoint no_appends ms =
      flush_to_analytics svc st endpoint ms"
    by (rule flush_among_none)
  have 6: "after (flush_to_analytics svc st endpoint ms) =
        \<lparr>customer_buffer = [], inventory_buffer = []\<rparr>"
    if "sent (flush_to_analytics svc st endpoint ms) = Inr True"
    using that by (simp add: flush_after clear_buffers_def)
  from 1 2 3 4 5 6 show ?thesis
    by blast
qed

theorem C4_witness:
  "sent (flush_to_analytics_among default_retry stamp_1 (answers [Success])
      (send_appends [AddProducts [product_p1]])
      \<lparr>customer_buffer = [customer_c1], inventory_buffer = []\<rparr>) = Inr True \<and>
   customers (flushed (flush_to_analytics_among default_retry stamp_1 (answers [Success])
      (send_appends [AddProducts [product_p1]])
      \<lparr>customer_buffer = [customer_c1], inventory_buffer = []\<rparr>)) = [customer_c1] \<and>
   products (flushed (flush_to_analytics_among default_retry stamp_1 (answers [Success])
      (send_appends [AddProducts [product_p1]])
      \<lparr>customer_buffer = [customer_c1], inventory_buffer = []\<rparr>)) = [] \<and>
   after (flush_to_analytics_among default_retry stamp_1 (answers [Success])
      (send_appends [AddProducts [product_p1]])
      \<lparr>customer_buffer = [customer_c1], inventory_buffer = []\<rparr>) =
     \<lparr>customer_buffer = [], inventory_buffer = []\<rparr> \<and>
   products (flushed (flush_to_analytics_among default_retry stamp_2 (answers [Success])
      no_appends
      (appended [] (after (flush_to_analytics_among default_retry stamp_1 (answers [Success])
        (send_appends [AddProducts [product_p1]])
        \<lparr>customer_buffer = [customer_c1], inventory_buffer = []\<rparr>))))) = [] \<and>
   after (flush_to_analytics_among default_retry stamp_1 (answers [HTTPError 400])
      (send_appends [AddProducts [product_p1]])
      \<lparr>customer_buffer = [customer_c1], inventory_buffer = []\<rparr>) =
     \<lparr>customer_buffer = [customer_c1], inventory_buffer = [product_p1]\<rparr> \<and>
   after (flush_to_analytics default_retry stamp_1 (answers [Success])
      \<lparr>customer_buffer = [customer_c1], inventory_buffer = [product_p1]\<rparr>) =
     \<lparr>customer_buffer = [], inventory_buffer = []\<rparr>"
proof -
  let ?il = "send_appends [AddProducts [product_p1]]"
  let ?ms = "\<lparr>customer_buffer = [customer_c1], inventory_buffer = []\<rparr>"
  let ?ms2 = "\<lparr>customer_buffer = [customer_c1], inventory_buffer = [product_p1]\<rparr>"
  let ?ok = "flush_to_analytics_among default_retry stamp_1 (answers [Success]) ?il ?ms"
  let ?no = "flush_to_analytics_among default_retry stamp_1 (answers [HTTPError 400]) ?il ?ms"
  have m: "1 \<le> max_retries default_retry"
    by (simp add: default_retry_def)
  have s1: "send_analytics_data default_retry (outcomes [Success]) = (Inr True, [Attempt 1])"
    by (simp add: send_analytics_data_def default_retry_def outcomes_def upto.simps)
  have s2: "send_analytics_data default_retry (outcomes [HTTPError 400]) =
      (Inr False, [Attempt 1])"
    by (rule send_client_error [where status = 400]) (simp_all add: default_retry_def outcomes_def)
  have h1: "sent ?ok = Inr True"
    by (simp add: flush_among_fields answers_def s1)
  have h2: "sent ?no \<noteq> Inr True"
    by (simp add: flush_among_fields answers_def s2)
  have h3: "sent (flush_to_analytics default_retry stamp_1 (answers [Success]) ?ms2) = Inr True"
    by (simp add: flush_to_analytics_def create_analytics_payload_def answers_def s1)
  note t1 = C4_copy_then_send_then_clear [where svc = default_retry and st = stamp_1
      and endpoint = "answers [Success]" and il = ?il and ms = ?ms and ?svc2.0 = default_retry
      and ?st2.0 = stamp_2 and ?endpoint2.0 = "answers [Success]" and ?il2.0 = no_appends
      and later = "[]"]
  note t2 = C4_copy_then_send_then_clear [where svc = default_retry and st = stamp_1
      and endpoint = "answers [HTTPError 400]" and il = ?il and ms = ?ms]
  note t3 = C4_copy_then_send_then_clear [where svc = default_retry and st = stamp_1
      and endpoint = "answers [Success]" and ms = ?ms2]
  have v: "during_clear ?il = []" "during_copy ?il = []" "before_count ?il = []"
    "during_count ?il = []" "during_send ?il = [AddProducts [product_p1]]"
    "during_copy no_appends = []"
    by (simp_all add: send_appends_def no_appends_def)
  from t1 have a: "customers (flushed ?ok) = customer_buffer ?ms"
    "products (flushed ?ok) = inventory_buffer ?ms @ products_of (during_copy ?il)"
    by blast+
  from t1 h1 have b: "customer_buffer (after ?ok) = customers_of (during_clear ?il)"
    "inventory_buffer (after ?ok) = []"
    "products (flushed (flush_to_analytics_among default_retry stamp_2 (answers [Success])
        no_appends (appended [] (after ?ok)))) = products_of ([] @ during_copy no_appends)"
    by blast+
  from t2 h2 have c: "after ?no =
      appended (during_copy ?il @ before_count ?il @ during_count ?il @ during_send ?il) ?ms"
    by blast
  from t3 h3 have d: "after (flush_to_analytics default_retry stamp_1 (answers [Success]) ?ms2) =
      \<lparr>customer_buffer = [], inventory_buffer = []\<rparr>"
    by blast
  have e: "after ?ok = \<lparr>customer_buffer = [], inventory_buffer = []\<rparr>"
    using b(1,2) by (cases "after ?ok") (simp add: v)
  show ?thesis
    using h1 a b(3) c d e by (simp add: v add_inventory_data_def)
qed

text \<open>
  Against C4 as stated: with one customer record buffered, the buffer still holds data
  after the payload was built, that is when the payload is submitted, and still holds it
  after a flush the endpoint refused.
\<close>

theorem C4_counterexample:
  "has_data (snd (create_analytics_payload stamp_1
      \<lparr>customer_buffer = [customer_c1], inventory_buffer = []\<rparr>)) \<and>
   has_data (after (flush_to_analytics default_retry stamp_1 (answers [HTTPError 400])
      \<lparr>customer_buffer = [customer_c1], inventory_buffer = []\<rparr>))"
proof -
  have "send_analytics_data default_retry (outcomes [HTTPError 400]) = (Inr False, [Attempt 1])"
    by (rule send_client_error [where status = 400]) (simp_all add: default_retry_def outcomes_def)
  then show ?thesis
    by (simp add: create_analytics_payload_def has_data_def flush_to_analytics_def answers_def)
qed

text \<open>
  C5, as the code has it: when the send does not report success (the retries are used up,
  the endpoint answered with a status from 400 to 499, or the send raised), the flush
  leaves the merge buffer as it was. The records of that flush are kept, and the payload
  of the next flush holds them again, followed by what was added in between.
\<close>

theorem C5_failed_flush_keeps_the_buffer:
  assumes "sent (flush_to_analytics svc st endpoint ms) \<noteq> Inr True"
  shows "after (flush_to_analytics svc st endpoint ms) = ms \<and>
         customers (flushed (flush_to_analytics svc2 st2 endpoint2
            (add_customer_data xs (after (flush_to_analytics svc st endpoint ms))))) =
           customer_buffer ms @ xs \<and>
         products (flushed (flush_to_analytics svc2 st2 endpoint2
            (add_inventory_data ys (after (flush_to_analytics svc st endpoint ms))))) =
           inventory_buffer ms @ ys"
  using assms
  by (simp add: flush_after flush_flushed add_customer_data_def add_inventory_data_def)

lemma send_exhausted_example:
  "send_analytics_data default_retry (outcomes [Timeout, HTTPError 503, RequestException]) =
     (Inr False, [Attempt 1, Sleep 1, Attempt 2, Sleep 2, Attempt 3])"
  by (simp add: send_analytics_data_def default_retry_def outcomes_def backoff_def upto.simps)

theorem C5_witness:
  "sent (flush_to_analytics default_retry stamp_1
        (answers [Timeout, HTTPError 503, RequestException])
        \<lparr>customer_buffer = [customer_c1], inventory_buffer = [product_p1]\<rparr>) = Inr False \<and>
   after (flush_to_analytics default_retry stamp_1
        (answers [Timeout, HTTPError 503, RequestException])
        \<lparr>customer_buffer = [customer_c1], inventory_buffer = [product_p1]\<rparr>) =
     \<lparr>customer_buffer = [customer_c1], inventory_buffer = [product_p1]\<rparr>"
proof -
  have s: "sent (flush_to_analytics default_retry stamp_1
        (answers [Timeout, HTTPError 503, RequestException])
        \<lparr>customer_buffer = [customer_c1], inventory_buffer = [product_p1]\<rparr>) = Inr False"
    by (simp add: flush_to_analytics_def create_analytics_payload_def answers_def
        send_exhausted_example)
  then have n: "sent (flush_to_analytics default_retry stamp_1
        (answers [Timeout, HTTPError 503, RequestException])
        \<lparr>customer_buffer = [customer_c1], inventory_buffer = [product_p1]\<rparr>) \<noteq> Inr True"
    by simp
  show ?thesis
    using s C5_failed_flush_keeps_the_buffer [OF n] by simp
qed

text \<open>
  Against C5 as stated: a flush whose send got a 400 is followed by a flush that succeeds,
  and the payload of the second flush holds the customer record of the first.
\<close>

theorem C5_counterexample:
  "sent (flush_to_analytics default_retry stamp_1 (answers [HTTPError 400])
        \<lparr>customer_buffer = [customer_c1], inventory_buffer = []\<rparr>) = Inr False \<and>
   customers (flushed (flush_to_analytics default_retry stamp_2 (answers [Success])
        (after (flush_to_analytics default_retry stamp_1 (answers [HTTPError 400])
           \<lparr>customer_buffer = [customer_c1], inventory_buffer = []\<rparr>)))) = [customer_c1]"
proof -
  have e: "send_analytics_data default_retry (outcomes [HTTPError 400]) = (Inr False, [Attempt 1])"
    by (rule send_client_error [where status = 400]) (simp_all add: default_retry_def outcomes_def)
  have s: "sent (flush_to_analytics default_retry stamp_1 (answers [HTTPError 400])
        \<lparr>customer_buffer = [customer_c1], inventory_buffer = []\<rparr>) = Inr False"
    by (simp add: create_analytics_payload_def flush_to_analytics_def answers_def e)
  show ?thesis
    by (simp add: s flush_after flush_flushed)
qed

section \<open>The consumer\<close>

lemma is_processed_eq:
  "is_processed now k svc = (k \<in> known_ids (cleanup_expired now svc), cleanup_expired now svc)"
  by (simp add: is_processed_def known_ids_def Let_def)

lemma is_duplicate_content_eq:
  "is_duplicate_content now h svc = (h \<in> known_hashes (cleanup_expired now svc), cleanup_expired now svc)"
  by (simp add: is_duplicate_content_def known_hashes_def Let_def)

lemma known_ids_cleanup:
  "known_ids (cleanup_expired now svc) = known_ids svc - expired_keys now svc"
  by (auto simp: known_ids_def cache_cleanup)

lemma known_hashes_cleanup: "known_hashes (cleanup_expired now svc) \<subseteq> known_hashes svc"
  by (auto simp: known_hashes_def cache_cleanup)

lemma mark_processed_Inr:
  assumes "cache svc \<noteq> [] \<or> 0 < max_size svc"
  shows "\<exists>kept. mark_processed n1 n2 k et rc h svc =
            Inr (svc\<lparr>cache := AList.update k (new_entry n1 n2 et rc h svc) kept\<rparr>) \<and>
          set kept \<subseteq> set (cache svc) \<and>
          (kept = cache svc \<or>
           (\<exists>oldest rest. cache svc = oldest # rest \<and> max_size svc \<le> int (length (cache svc)) \<and>
              kept = filter (\<lambda>kv. fst kv \<noteq> fst oldest) rest))"
proof (cases "max_size svc \<le> int (length (cache svc))")
  case False
  then show ?thesis by (auto simp: mark_processed_room)
next
  case True
  with assms obtain oldest rest where c: "cache svc = oldest # rest"
    by (cases "cache svc") auto
  show ?thesis
    using mark_processed_full [OF True c] c True by auto
qed

lemma process_message_unparsed:
  "msg_value msg = None \<Longrightarrow> process_message clk msg cb s = (False, s)"
  by (simp add: process_message_def)

lemma process_message_known_id:
  assumes "msg_value msg = Some md"
    and "message_id_of md \<in> known_ids (cleanup_expired (t_lookup clk) (idem s))"
  shows "process_message clk msg cb s =
           (True, s\<lparr>idem := cleanup_expired (t_lookup clk) (idem s),
                     messages_skipped := messages_skipped s + 1\<rparr>)"
  using assms by (simp add: process_message_def is_processed_eq Let_def)

lemma process_message_known_content:
  assumes "msg_value msg = Some md"
    and "message_id_of md \<notin> known_ids (cleanup_expired (t_lookup clk) (idem s))"
    and "get_payload_hash (payload_of md) \<in>
           known_hashes (cleanup_expired (t_scan clk) (cleanup_expired (t_lookup clk) (idem s)))"
  shows "process_message clk msg cb s =
           record_message clk (message_id_of md) (event_type_of md) (payload_of md)
             (get_payload_hash (payload_of md))
             (s\<lparr>idem := cleanup_expired (t_scan clk) (cleanup_expired (t_lookup clk) (idem s)),
                messages_skipped := messages_skipped s + 1\<rparr>)"
  using assms by (simp add: process_message_def is_processed_eq is_duplicate_content_eq Let_def)

lemma process_message_callback:
  assumes "msg_value msg = Some md"
    and "message_id_of md \<notin> known_ids (cleanup_expired (t_lookup clk) (idem s))"
    and "get_payload_hash (payload_of md) \<notin>
           known_hashes (cleanup_expired (t_scan clk) (cleanup_expired (t_lookup clk) (idem s)))"
    and "cb md (app s) = (r, a)"
  shows "process_message clk msg cb s =
           (if r = Returned True then
              record_message clk (message_id_of md) (event_type_of md) (payload_of md)
                (get_payload_hash (payload_of md))
                (s\<lparr>idem := cleanup_expired (t_scan clk) (cleanup_expired (t_lookup clk) (idem s)),
                   app := a, cb_calls := cb_calls s @ [md]\<rparr>)
            else (False,
                s\<lparr>idem := cleanup_expired (t_scan clk) (cleanup_expired (t_lookup clk) (idem s)),
                   app := a, cb_calls := cb_calls s @ [md]\<rparr>))"
  using assms
  by (auto simp: process_message_def is_processed_eq is_duplicate_content_eq Let_def
      split: cb_result.splits bool.splits)

lemma known_ids_update: "known_ids (svc\<lparr>cache := AList.update k e c\<rparr>) = insert k (fst ` set c)"
  by (simp add: known_ids_def dom_update)

lemma record_message_ok:
  assumes "py_len pl = Some n" and "cache (idem s) \<noteq> [] \<or> 0 < max_size (idem s)"
  shows "\<exists>kept. record_message clk k et pl h s =
           (True, s\<lparr>idem := (idem s)\<lparr>cache := AList.update k
               (new_entry (t_processed clk) (t_expiry clk) et n h (idem s)) kept\<rparr>\<rparr>) \<and>
           set kept \<subseteq> set (cache (idem s)) \<and>
           (kept = cache (idem s) \<or>
            (\<exists>oldest rest. cache (idem s) = oldest # rest \<and>
               max_size (idem s) \<le> int (length (cache (idem s))) \<and>
               kept = filter (\<lambda>kv. fst kv \<noteq> fst oldest) rest))"
proof -
  from mark_processed_Inr [OF assms(2), of "t_processed clk" "t_expiry clk" k et n h]
  obtain kept where m: "mark_processed (t_processed clk) (t_expiry clk) k et n h (idem s) =
            Inr ((idem s)\<lparr>cache := AList.update k
               (new_entry (t_processed clk) (t_expiry clk) et n h (idem s)) kept\<rparr>)"
    and k: "set kept \<subseteq> set (cache (idem s))"
      "kept = cache (idem s) \<or>
           (\<exists>oldest rest. cache (idem s) = oldest # rest \<and>
              max_size (idem s) \<le> int (length (cache (idem s))) \<and>
              kept = filter (\<lambda>kv. fst kv \<noteq> fst oldest) rest)"
    by blast
  show ?thesis
    using m k assms(1) by (auto simp: record_message_def)
qed

lemma record_message_other_fields:
  "cb_calls (snd (record_message clk k et pl h s)) = cb_calls s"
  "app (snd (record_message clk k et pl h s)) = app s"
  "messages_skipped (snd (record_message clk k et pl h s)) = messages_skipped s"
  "messages_processed (snd (record_message clk k et pl h s)) = messages_processed s"
  "errors_count (snd (record_message clk k et pl h s)) = errors_count s"
  "committed (snd (record_message clk k et pl h s)) = committed s"
  by (auto simp: record_message_def split: option.splits sum.splits)

lemma record_message_failed:
  "fst (record_message clk k et pl h s) = False \<Longrightarrow> snd (record_message clk k et pl h s) = s"
  by (auto simp: record_message_def split: option.splits sum.splits)

lemma step_unparsed:
  "msg_value msg = None \<Longrightarrow>
   consume_step cb (Message msg, clk) s = s\<lparr>errors_count := errors_count s + 1\<rparr>"
  by (simp add: consume_step_def process_message_unparsed)

lemma step_known_id:
  assumes "msg_value msg = Some md"
    and "fst (is_processed (t_lookup clk) (message_id_of md) (idem s))"
  shows "consume_step cb (Message msg, clk) s =
           s\<lparr>idem := cleanup_expired (t_lookup clk) (idem s),
             messages_skipped := messages_skipped s + 1,
             committed := committed s @ [msg],
             messages_processed := messages_processed s + 1\<rparr>"
  using assms
  by (simp add: consume_step_def process_message_known_id is_processed_eq)

lemma swept_fields [simp]:
  "max_size (swept clk svc) = max_size svc" "ttl_seconds (swept clk svc) = ttl_seconds svc"
  by (simp_all add: swept_def)

lemma swept_subset: "set (cache (swept clk svc)) \<subseteq> set (cache svc)"
  by (auto simp: swept_def cache_cleanup)

lemma new_entry_ttl:
  "ttl_seconds svc' = ttl_seconds svc \<Longrightarrow> new_entry a b et n h svc' = new_entry a b et n h svc"
  by (simp add: new_entry_def)

lemma not_dup_id:
  "\<not> fst (is_processed (t_lookup clk) k (idem s)) \<Longrightarrow>
   k \<notin> known_ids (cleanup_expired (t_lookup clk) (idem s)) \<and> k \<notin> known_ids (swept clk (idem s))"
  by (auto simp: is_processed_eq swept_def known_ids_cleanup)

lemma dup_content_iff:
  "fst (is_duplicate_content (t_scan clk) h (snd (is_processed (t_lookup clk) k svc))) =
     (h \<in> known_hashes (swept clk svc))"
  by (simp add: is_processed_eq is_duplicate_content_eq swept_def)

lemma step_callback_failed:
  assumes "msg_value msg = Some md"
    and "\<not> fst (is_processed (t_lookup clk) (message_id_of md) (idem s))"
    and "\<not> fst (is_duplicate_content (t_scan clk) (get_payload_hash (payload_of md))
              (snd (is_processed (t_lookup clk) (message_id_of md) (idem s))))"
    and "cb md (app s) = (r, a)" and "r \<noteq> Returned True"
  shows "consume_step cb (Message msg, clk) s =
           s\<lparr>idem := swept clk (idem s), app := a, cb_calls := cb_calls s @ [md],
             errors_count := errors_count s + 1\<rparr>"
proof -
  have a: "message_id_of md \<notin> known_ids (cleanup_expired (t_lookup clk) (idem s))"
    using assms(2) by (simp add: is_processed_eq)
  have b: "get_payload_hash (payload_of md)
      \<notin> known_hashes (cleanup_expired (t_scan clk) (cleanup_expired (t_lookup clk) (idem s)))"
    using assms(3) by (simp add: dup_content_iff swept_def)
  show ?thesis
    using assms(5) process_message_callback [of msg md clk s cb r a, OF assms(1) a b assms(4)]
    by (simp add: consume_step_def swept_def)
qed

lemma step_callback_ok:
  assumes "msg_value msg = Some md"
    and "\<not> fst (is_processed (t_lookup clk) (message_id_of md) (idem s))"
    and "\<not> fst (is_duplicate_content (t_scan clk) (get_payload_hash (payload_of md))
              (snd (is_processed (t_lookup clk) (message_id_of md) (idem s))))"
    and "cb md (app s) = (Returned True, a)"
    and "py_len (payload_of md) = Some n"
    and "0 < max_size (idem s)"
  shows "\<exists>kept. consume_step cb (Message msg, clk) s =
           s\<lparr>idem := (swept clk (idem s))\<lparr>cache := kept @ [(message_id_of md,
                   new_entry (t_processed clk) (t_expiry clk) (event_type_of md) n
                     (get_payload_hash (payload_of md)) (idem s))]\<rparr>,
             app := a, cb_calls := cb_calls s @ [md],
             committed := committed s @ [msg],
             messages_processed := messages_processed s + 1\<rparr> \<and>
           set kept \<subseteq> set (cache (idem s)) \<and> message_id_of md \<notin> fst ` set kept"
proof -
  let ?svc2 = "swept clk (idem s)"
  let ?s3 = "s\<lparr>idem := ?svc2, app := a, cb_calls := cb_calls s @ [md]\<rparr>"
  have a: "message_id_of md \<notin> known_ids (cleanup_expired (t_lookup clk) (idem s))"
    using assms(2) by (simp add: is_processed_eq)
  have b: "get_payload_hash (payload_of md)
      \<notin> known_hashes (cleanup_expired (t_scan clk) (cleanup_expired (t_lookup clk) (idem s)))"
    using assms(3) by (simp add: dup_content_iff swept_def)
  have pm: "process_message clk msg cb s =
      record_message clk (message_id_of md) (event_type_of md) (payload_of md)
        (get_payload_hash (payload_of md)) ?s3"
    using process_message_callback [of msg md clk s cb "Returned True" a, OF assms(1) a b assms(4)]
    by (simp add: swept_def)
  have "cache (idem ?s3) \<noteq> [] \<or> 0 < max_size (idem ?s3)"
    using assms(6) by simp
  from record_message_ok [OF assms(5) this, of clk "message_id_of md" "event_type_of md"
      "get_payload_hash (payload_of md)"]
  obtain kept where r: "record_message clk (message_id_of md) (event_type_of md) (payload_of md)
        (get_payload_hash (payload_of md)) ?s3 =
      (True, ?s3\<lparr>idem := (idem ?s3)\<lparr>cache := AList.update (message_id_of md)
               (new_entry (t_processed clk) (t_expiry clk) (event_type_of md) n
                  (get_payload_hash (payload_of md)) (idem ?s3)) kept\<rparr>\<rparr>)"
    and k: "set kept \<subseteq> set (cache (idem ?s3))"
    by blast
  have k2: "set kept \<subseteq> set (cache (idem s))"
    using k swept_subset [of clk "idem s"] by auto
  have nk: "message_id_of md \<notin> fst ` set kept"
    using k not_dup_id [OF assms(2)] by (auto simp: known_ids_def)
  have u: "AList.update (message_id_of md)
               (new_entry (t_processed clk) (t_expiry clk) (event_type_of md) n
                  (get_payload_hash (payload_of md)) (swept clk (idem s))) kept =
           kept @ [(message_id_of md, new_entry (t_processed clk) (t_expiry clk) (event_type_of md) n
                  (get_payload_hash (payload_of md)) (idem s))]"
    using update_absent [OF nk] by (simp add: new_entry_def)
  show ?thesis
    using k2 nk by (intro exI [of _ kept]) (simp add: consume_step_def pm r u)
qed

lemma last_survives_cleanup:
  assumes "cache svc = pre @ [(k, e)]" and "k \<notin> fst ` set pre" and "t \<le> expires_at e"
  shows "\<exists>pre'. cache (cleanup_expired t svc) = pre' @ [(k, e)] \<and> set pre' \<subseteq> set pre"
proof -
  have "k \<notin> expired_keys t svc"
    using assms by (auto simp: expired_keys_def)
  then show ?thesis
    using assms(1) by (auto simp: cache_cleanup)
qed

lemma known_id_is_skipped:
  assumes "msg_value msg = Some md"
    and "fst (is_processed (t_lookup clk) (message_id_of md) (idem s))"
  shows "cb_calls (consume_step cb (Message msg, clk) s) = cb_calls s \<and>
         app (consume_step cb (Message msg, clk) s) = app s \<and>
         messages_skipped (consume_step cb (Message msg, clk) s) = messages_skipped s + 1 \<and>
         committed (consume_step cb (Message msg, clk) s) = committed s @ [msg] \<and>
         errors_count (consume_step cb (Message msg, clk) s) = errors_count s"
  by (simp add: step_known_id [OF assms])

lemma second_delivery_is_skipped:
  assumes p: "msg_value msg = Some md"
    and nid: "\<not> fst (is_processed (t_lookup clk1) (message_id_of md) (idem s))"
    and nh: "\<not> fst (is_duplicate_content (t_scan clk1) (get_payload_hash (payload_of md))
              (snd (is_processed (t_lookup clk1) (message_id_of md) (idem s))))"
    and c: "cb md (app s) = (Returned True, a)"
    and l: "py_len (payload_of md) = Some n"
    and m: "0 < max_size (idem s)"
    and live: "t_lookup clk2 \<le> t_expiry clk1 + ttl_seconds (idem s) * 1000000"
  shows "cb_calls (consume_step cb (Message msg, clk2) (consume_step cb (Message msg, clk1) s)) =
           cb_calls s @ [md] \<and>
         app (consume_step cb (Message msg, clk2) (consume_step cb (Message msg, clk1) s)) = a \<and>
         committed (consume_step cb (Message msg, clk2) (consume_step cb (Message msg, clk1) s)) =
           committed s @ [msg, msg] \<and>
         messages_skipped (consume_step cb (Message msg, clk2) (consume_step cb (Message msg, clk1) s)) =
           messages_skipped s + 1"
proof -
  let ?e = "new_entry (t_processed clk1) (t_expiry clk1) (event_type_of md) n
                     (get_payload_hash (payload_of md)) (idem s)"
  from step_callback_ok [of msg md clk1 s cb a n, OF p nid nh c l m]
  obtain kept where s1: "consume_step cb (Message msg, clk1) s =
           s\<lparr>idem := (swept clk1 (idem s))\<lparr>cache := kept @ [(message_id_of md, ?e)]\<rparr>,
             app := a, cb_calls := cb_calls s @ [md],
             committed := committed s @ [msg],
             messages_processed := messages_processed s + 1\<rparr>"
    and k: "message_id_of md \<notin> fst ` set kept"
    by blast
  let ?s1 = "consume_step cb (Message msg, clk1) s"
  have c1: "cache (idem ?s1) = kept @ [(message_id_of md, ?e)]"
    by (simp add: s1)
  have "t_lookup clk2 \<le> expires_at ?e"
    using live by (simp add: new_entry_def)
  from last_survives_cleanup [OF c1 k this]
  have "message_id_of md \<in> known_ids (cleanup_expired (t_lookup clk2) (idem ?s1))"
    by (auto simp: known_ids_def)
  then have d: "fst (is_processed (t_lookup clk2) (message_id_of md) (idem ?s1))"
    by (simp add: is_processed_eq)
  show ?thesis
    unfolding step_known_id [OF p d] by (simp add: s1)
qed

lemma known_hashes_nonempty: "h \<in> known_hashes svc \<Longrightarrow> cache svc \<noteq> []"
  by (auto simp: known_hashes_def)

lemma consume_step_message:
  "process_message clk msg cb s = (ok, s1) \<Longrightarrow>
   consume_step cb (Message msg, clk) s =
     (if ok then s1\<lparr>committed := committed s1 @ [msg],
                     messages_processed := messages_processed s1 + 1\<rparr>
      else s1\<lparr>errors_count := errors_count s1 + 1\<rparr>)"
  by (simp add: consume_step_def)

lemma consume_step_cb_calls:
  "cb_calls (consume_step cb (Message msg, clk) s) = cb_calls (snd (process_message clk msg cb s))"
  by (simp add: consume_step_def split: prod.splits)

lemma step_known_content:
  assumes p: "msg_value msg = Some md"
    and nid: "\<not> fst (is_processed (t_lookup clk) (message_id_of md) (idem s))"
    and dc: "fst (is_duplicate_content (t_scan clk) (get_payload_hash (payload_of md))
              (snd (is_processed (t_lookup clk) (message_id_of md) (idem s))))"
    and l: "py_len (payload_of md) = Some n"
  shows "\<exists>kept. consume_step cb (Message msg, clk) s =
           s\<lparr>idem := (swept clk (idem s))\<lparr>cache := kept @ [(message_id_of md,
                   new_entry (t_processed clk) (t_expiry clk) (event_type_of md) n
                     (get_payload_hash (payload_of md)) (idem s))]\<rparr>,
             messages_skipped := messages_skipped s + 1,
             committed := committed s @ [msg],
             messages_processed := messages_processed s + 1\<rparr> \<and>
           message_id_of md \<notin> fst ` set kept \<and>
           (kept = cache (swept clk (idem s)) \<or>
            (\<exists>oldest rest. cache (swept clk (idem s)) = oldest # rest \<and>
               max_size (idem s) \<le> int (length (cache (swept clk (idem s)))) \<and>
               kept = filter (\<lambda>kv. fst kv \<noteq> fst oldest) rest))"
proof -
  let ?svc2 = "swept clk (idem s)"
  let ?s3 = "s\<lparr>idem := ?svc2, messages_skipped := messages_skipped s + 1\<rparr>"
  let ?h = "get_payload_hash (payload_of md)"
  have a: "message_id_of md \<notin> known_ids (cleanup_expired (t_lookup clk) (idem s))"
    using nid by (simp add: is_processed_eq)
  have b: "?h \<in> known_hashes (cleanup_expired (t_scan clk) (cleanup_expired (t_lookup clk) (idem s)))"
    using dc by (simp add: dup_content_iff swept_def)
  have pm: "process_message clk msg cb s =
      record_message clk (message_id_of md) (event_type_of md) (payload_of md) ?h ?s3"
    using process_message_known_content [of msg md clk s cb, OF p a b] by (simp add: swept_def)
  have "cache (idem ?s3) \<noteq> [] \<or> 0 < max_size (idem ?s3)"
    using known_hashes_nonempty [OF b] by (simp add: swept_def)
  from record_message_ok [OF l this, of clk "message_id_of md" "event_type_of md" ?h]
  obtain kept where r: "record_message clk (message_id_of md) (event_type_of md) (payload_of md) ?h ?s3 =
      (True, ?s3\<lparr>idem := (idem ?s3)\<lparr>cache := AList.update (message_id_of md)
               (new_entry (t_processed clk) (t_expiry clk) (event_type_of md) n ?h (idem ?s3)) kept\<rparr>\<rparr>)"
    and k: "set kept \<subseteq> set (cache (idem ?s3))"
    and k3: "kept = cache (idem ?s3) \<or>
            (\<exists>oldest rest. cache (idem ?s3) = oldest # rest \<and>
               max_size (idem ?s3) \<le> int (length (cache (idem ?s3))) \<and>
               kept = filter (\<lambda>kv. fst kv \<noteq> fst oldest) rest)"
    by blast
  have nk: "message_id_of md \<notin> fst ` set kept"
    using k not_dup_id [OF nid] by (auto simp: known_ids_def)
  have u: "AList.update (message_id_of md)
               (new_entry (t_processed clk) (t_expiry clk) (event_type_of md) n ?h (swept clk (idem s))) kept =
           kept @ [(message_id_of md, new_entry (t_processed clk) (t_expiry clk) (event_type_of md) n
                  ?h (idem s))]"
    using update_absent [OF nk] by (simp add: new_entry_def)
  have "process_message clk msg cb s =
      (True, ?s3\<lparr>idem := (idem ?s3)\<lparr>cache := AList.update (message_id_of md)
               (new_entry (t_processed clk) (t_expiry clk) (event_type_of md) n ?h (idem ?s3)) kept\<rparr>\<rparr>)"
    unfolding pm by (rule r)
  from consume_step_message [OF this]
  have "consume_step cb (Message msg, clk) s =
           s\<lparr>idem := (swept clk (idem s))\<lparr>cache := kept @ [(message_id_of md,
                   new_entry (t_processed clk) (t_expiry clk) (event_type_of md) n ?h (idem s))]\<rparr>,
             messages_skipped := messages_skipped s + 1,
             committed := committed s @ [msg],
             messages_processed := messages_processed s + 1\<rparr>"
    by (simp add: u)
  then show ?thesis
    using nk k3 by (intro exI [of _ kept]) simp
qed

lemma step_callback_calls:
  assumes p: "msg_value msg = Some md"
    and nid: "\<not> fst (is_processed (t_lookup clk) (message_id_of md) (idem s))"
    and nh: "\<not> fst (is_duplicate_content (t_scan clk) (get_payload_hash (payload_of md))
              (snd (is_processed (t_lookup clk) (message_id_of md) (idem s))))"
  shows "cb_calls (consume_step cb (Message msg, clk) s) = cb_calls s @ [md]"
proof -
  obtain r a where c: "cb md (app s) = (r, a)" by (cases "cb md (app s)")
  have a: "message_id_of md \<notin> known_ids (cleanup_expired (t_lookup clk) (idem s))"
    using nid by (simp add: is_processed_eq)
  have b: "get_payload_hash (payload_of md)
      \<notin> known_hashes (cleanup_expired (t_scan clk) (cleanup_expired (t_lookup clk) (idem s)))"
    using nh by (simp add: dup_content_iff swept_def)
  have "cb_calls (snd (process_message clk msg cb s)) = cb_calls s @ [md]"
    using process_message_callback [of msg md clk s cb r a, OF p a b c]
    by (simp add: record_message_other_fields)
  then show ?thesis
    by (simp add: consume_step_cb_calls)
qed

lemma commit_iff_recorded:
  assumes p: "msg_value msg = Some md" and m: "0 < max_size (idem s)"
    and l: "py_len (payload_of md) = Some n"
  shows "(committed (consume_step cb (Message msg, clk) s) = committed s @ [msg]) =
           (message_id_of md \<in> known_ids (idem (consume_step cb (Message msg, clk) s))) \<and>
         (message_id_of md \<in> known_ids (idem (consume_step cb (Message msg, clk) s))) =
           (fst (is_processed (t_lookup clk) (message_id_of md) (idem s)) \<or>
            fst (is_duplicate_content (t_scan clk) (get_payload_hash (payload_of md))
              (snd (is_processed (t_lookup clk) (message_id_of md) (idem s)))) \<or>
            fst (cb md (app s)) = Returned True) \<and>
         (message_id_of md \<in> known_ids (idem (consume_step cb (Message msg, clk) s)) \<or>
            committed (consume_step cb (Message msg, clk) s) = committed s \<and>
            errors_count (consume_step cb (Message msg, clk) s) = errors_count s + 1)"
proof (cases "fst (is_processed (t_lookup clk) (message_id_of md) (idem s))")
  case True
  have "message_id_of md \<in> known_ids (cleanup_expired (t_lookup clk) (idem s))"
    using True by (simp add: is_processed_eq)
  then show ?thesis
    using True by (simp add: step_known_id [OF p True])
next
  case nid: False
  show ?thesis
  proof (cases "fst (is_duplicate_content (t_scan clk) (get_payload_hash (payload_of md))
              (snd (is_processed (t_lookup clk) (message_id_of md) (idem s))))")
    case True
    from step_known_content [of msg md clk s n cb, OF p nid True l]
    obtain kept where "consume_step cb (Message msg, clk) s =
           s\<lparr>idem := (swept clk (idem s))\<lparr>cache := kept @ [(message_id_of md,
                   new_entry (t_processed clk) (t_expiry clk) (event_type_of md) n
                     (get_payload_hash (payload_of md)) (idem s))]\<rparr>,
             messages_skipped := messages_skipped s + 1,
             committed := committed s @ [msg],
             messages_processed := messages_processed s + 1\<rparr>"
      by blast
    then show ?thesis
      using True by (simp add: known_ids_def)
  next
    case nh: False
    obtain r a where c: "cb md (app s) = (r, a)" by (cases "cb md (app s)")
    show ?thesis
    proof (cases "r = Returned True")
      case True
      from step_callback_ok [of msg md clk s cb a n, OF p nid nh c [unfolded True] l m]
      obtain kept where "consume_step cb (Message msg, clk) s =
           s\<lparr>idem := (swept clk (idem s))\<lparr>cache := kept @ [(message_id_of md,
                   new_entry (t_processed clk) (t_expiry clk) (event_type_of md) n
                     (get_payload_hash (payload_of md)) (idem s))]\<rparr>,
             app := a, cb_calls := cb_calls s @ [md],
             committed := committed s @ [msg],
             messages_processed := messages_processed s + 1\<rparr>"
        by blast
      then show ?thesis
        using True c by (simp add: known_ids_def)
    next
      case False
      show ?thesis
        using False c nid nh not_dup_id [OF nid]
        by (simp add: step_callback_failed [of msg md clk s cb r a, OF p nid nh c False])
    qed
  qed
qed

lemma not_dup_after_sweeps:
  assumes "k \<notin> known_ids (swept clk svc)"
  shows "\<not> fst (is_processed t k (swept clk svc))"
  using assms by (simp add: is_processed_eq known_ids_cleanup)

lemma not_dupc_after_sweeps:
  assumes "h \<notin> known_hashes (swept clk svc)"
  shows "\<not> fst (is_duplicate_content t2 h (snd (is_processed t k (swept clk svc))))"
proof -
  have "known_hashes (swept clk2 (swept clk svc)) \<subseteq> known_hashes (swept clk svc)" for clk2
    using known_hashes_cleanup [of "t_scan clk2" "cleanup_expired (t_lookup clk2) (swept clk svc)"]
      known_hashes_cleanup [of "t_lookup clk2" "swept clk svc"]
    by (auto simp: swept_def)
  then have "h \<notin> known_hashes (cleanup_expired t2 (cleanup_expired t (swept clk svc)))"
    using assms known_hashes_cleanup [of t2 "cleanup_expired t (swept clk svc)"]
      known_hashes_cleanup [of t "swept clk svc"] by auto
  then show ?thesis
    by (simp add: is_processed_eq is_duplicate_content_eq)
qed

lemma failed_callback_is_retried:
  assumes p: "msg_value msg = Some md"
    and nid: "\<not> fst (is_processed (t_lookup clk) (message_id_of md) (idem s))"
    and nh: "\<not> fst (is_duplicate_content (t_scan clk) (get_payload_hash (payload_of md))
              (snd (is_processed (t_lookup clk) (message_id_of md) (idem s))))"
    and f: "fst (cb md (app s)) \<noteq> Returned True"
  shows "committed (consume_step cb (Message msg, clk) s) = committed s \<and>
         errors_count (consume_step cb (Message msg, clk) s) = errors_count s + 1 \<and>
         cb_calls (consume_step cb (Message msg, clk) s) = cb_calls s @ [md] \<and>
         cb_calls (consume_step cb (Message msg, clk2) (consume_step cb (Message msg, clk) s)) =
           cb_calls s @ [md, md]"
proof -
  obtain r a where c: "cb md (app s) = (r, a)" by (cases "cb md (app s)")
  have r: "r \<noteq> Returned True" using f c by simp
  let ?s1 = "consume_step cb (Message msg, clk) s"
  have s1: "?s1 = s\<lparr>idem := swept clk (idem s), app := a, cb_calls := cb_calls s @ [md],
             errors_count := errors_count s + 1\<rparr>"
    by (rule step_callback_failed [of msg md clk s cb r a, OF p nid nh c r])
  have i: "idem ?s1 = swept clk (idem s)" by (simp add: s1)
  have n1: "\<not> fst (is_processed (t_lookup clk2) (message_id_of md) (idem ?s1))"
    unfolding i using not_dup_id [OF nid] by (intro not_dup_after_sweeps) simp
  have "get_payload_hash (payload_of md) \<notin> known_hashes (swept clk (idem s))"
    using nh by (simp add: dup_content_iff)
  then have n2: "\<not> fst (is_duplicate_content (t_scan clk2) (get_payload_hash (payload_of md))
              (snd (is_processed (t_lookup clk2) (message_id_of md) (idem ?s1))))"
    unfolding i by (rule not_dupc_after_sweeps)
  have "cb_calls (consume_step cb (Message msg, clk2) ?s1) = cb_calls ?s1 @ [md]"
    by (rule step_callback_calls [OF p n1 n2])
  then show ?thesis
    by (simp add: s1)
qed

lemma swept_keeps_last:
  assumes "cache svc = pre @ [(k, e)]" and "k \<notin> fst ` set pre"
    and "t_lookup clk \<le> expires_at e" and "t_scan clk \<le> expires_at e"
  shows "\<exists>pre'. cache (swept clk svc) = pre' @ [(k, e)] \<and> set pre' \<subseteq> set pre"
proof -
  from last_survives_cleanup [OF assms(1,2,3)]
  obtain p1 where a: "cache (cleanup_expired (t_lookup clk) svc) = p1 @ [(k, e)]"
    and b: "set p1 \<subseteq> set pre" by blast
  have "k \<notin> fst ` set p1" using b assms(2) by auto
  from last_survives_cleanup [OF a this assms(4)]
  obtain p2 where "cache (cleanup_expired (t_scan clk) (cleanup_expired (t_lookup clk) svc)) = p2 @ [(k, e)]"
    and "set p2 \<subseteq> set p1" by blast
  then show ?thesis using b by (auto simp: swept_def)
qed

lemma two_last_known:
  assumes c: "cache svc = pre @ [(k1, e1), (k2, e2)]"
    and "k1 \<notin> fst ` set pre" and "k2 \<notin> fst ` set pre" and "k1 \<noteq> k2"
    and "t \<le> expires_at e1" and "t \<le> expires_at e2"
  shows "fst (is_processed t k1 svc) \<and> fst (is_processed t k2 svc) \<and>
         map_of (cache svc) k1 = Some e1 \<and> map_of (cache svc) k2 = Some e2"
proof -
  have "k1 \<notin> expired_keys t svc" "k2 \<notin> expired_keys t svc"
    using assms by (auto simp: expired_keys_def)
  moreover have "k1 \<in> known_ids svc" "k2 \<in> known_ids svc"
    using c by (simp_all add: known_ids_def)
  ultimately have "k1 \<in> known_ids (cleanup_expired t svc)" "k2 \<in> known_ids (cleanup_expired t svc)"
    by (simp_all add: known_ids_cleanup)
  moreover have "map_of (cache svc) k1 = Some e1" "map_of (cache svc) k2 = Some e2"
    using assms(2,3,4) by (auto simp: c map_add_Some_iff map_of_eq_None_iff)
  ultimately show ?thesis by (simp add: is_processed_eq)
qed

lemma same_content_is_skipped:
  assumes p1: "msg_value msg1 = Some md1" and p2: "msg_value msg2 = Some md2"
    and ne: "message_id_of md1 \<noteq> message_id_of md2"
    and same: "json_dumps (payload_of md1) = json_dumps (payload_of md2)"
    and nid: "\<not> fst (is_processed (t_lookup clk1) (message_id_of md1) (idem s))"
    and nh: "\<not> fst (is_duplicate_content (t_scan clk1) (get_payload_hash (payload_of md1))
              (snd (is_processed (t_lookup clk1) (message_id_of md1) (idem s))))"
    and n2: "message_id_of md2 \<notin> known_ids (idem s)"
    and c: "cb md1 (app s) = (Returned True, a)"
    and l1: "py_len (payload_of md1) = Some n1" and l2: "py_len (payload_of md2) = Some n2"
    and m: "2 \<le> max_size (idem s)"
    and live1: "t_lookup clk2 \<le> t_expiry clk1 + ttl_seconds (idem s) * 1000000"
    and live2: "t_scan clk2 \<le> t_expiry clk1 + ttl_seconds (idem s) * 1000000"
    and live3: "t \<le> t_expiry clk1 + ttl_seconds (idem s) * 1000000"
    and live4: "t \<le> t_expiry clk2 + ttl_seconds (idem s) * 1000000"
  shows "cb_calls (consume_step cb (Message msg2, clk2) (consume_step cb (Message msg1, clk1) s)) =
           cb_calls s @ [md1] \<and>
         app (consume_step cb (Message msg2, clk2) (consume_step cb (Message msg1, clk1) s)) = a \<and>
         messages_skipped (consume_step cb (Message msg2, clk2) (consume_step cb (Message msg1, clk1) s)) =
           messages_skipped s + 1 \<and>
         committed (consume_step cb (Message msg2, clk2) (consume_step cb (Message msg1, clk1) s)) =
           committed s @ [msg1, msg2] \<and>
         fst (is_duplicate_content (t_scan clk2) (get_payload_hash (payload_of md2))
              (snd (is_processed (t_lookup clk2) (message_id_of md2)
                 (idem (consume_step cb (Message msg1, clk1) s))))) \<and>
         map_of (cache (idem (consume_step cb (Message msg2, clk2) (consume_step cb (Message msg1, clk1) s))))
             (message_id_of md2) =
           Some (new_entry (t_processed clk2) (t_expiry clk2) (event_type_of md2) n2
                   (get_payload_hash (payload_of md2)) (idem s)) \<and>
         fst (is_processed t (message_id_of md1)
               (idem (consume_step cb (Message msg2, clk2) (consume_step cb (Message msg1, clk1) s)))) \<and>
         fst (is_processed t (message_id_of md2)
               (idem (consume_step cb (Message msg2, clk2) (consume_step cb (Message msg1, clk1) s))))"
proof -
  let ?k1 = "message_id_of md1" and ?k2 = "message_id_of md2"
  let ?h = "get_payload_hash (payload_of md1)"
  let ?e1 = "new_entry (t_processed clk1) (t_expiry clk1) (event_type_of md1) n1 ?h (idem s)"
  let ?e2 = "new_entry (t_processed clk2) (t_expiry clk2) (event_type_of md2) n2 ?h (idem s)"
  have hh: "get_payload_hash (payload_of md2) = ?h"
    using same by (simp add: get_payload_hash_def)
  have m1: "0 < max_size (idem s)" using m by simp
  from step_callback_ok [of msg1 md1 clk1 s cb a n1, OF p1 nid nh c l1 m1]
  obtain kept where s1: "consume_step cb (Message msg1, clk1) s =
           s\<lparr>idem := (swept clk1 (idem s))\<lparr>cache := kept @ [(?k1, ?e1)]\<rparr>,
             app := a, cb_calls := cb_calls s @ [md1],
             committed := committed s @ [msg1],
             messages_processed := messages_processed s + 1\<rparr>"
    and k: "set kept \<subseteq> set (cache (idem s))" "?k1 \<notin> fst ` set kept"
    by blast
  let ?s1 = "consume_step cb (Message msg1, clk1) s"
  have c1: "cache (idem ?s1) = kept @ [(?k1, ?e1)]" by (simp add: s1)
  have f1: "max_size (idem ?s1) = max_size (idem s)" "ttl_seconds (idem ?s1) = ttl_seconds (idem s)"
    by (simp_all add: s1)
  have x1: "expires_at ?e1 = t_expiry clk1 + ttl_seconds (idem s) * 1000000"
    and x2: "expires_at ?e2 = t_expiry clk2 + ttl_seconds (idem s) * 1000000"
    and ph: "payload_hash ?e1 = ?h"
    by (simp_all add: new_entry_def)
  from swept_keeps_last [OF c1 k(2), of clk2] live1 live2 x1
  obtain pre where sw: "cache (swept clk2 (idem ?s1)) = pre @ [(?k1, ?e1)]"
    and pk: "set pre \<subseteq> set kept" by auto
  have k2pre: "?k2 \<notin> fst ` set pre" "?k1 \<notin> fst ` set pre"
    using pk k n2 by (auto simp: known_ids_def)
  have "?k2 \<notin> known_ids (idem ?s1)"
    using n2 k ne by (auto simp: known_ids_def c1)
  then have nid2: "\<not> fst (is_processed (t_lookup clk2) ?k2 (idem ?s1))"
    by (simp add: is_processed_eq known_ids_cleanup)
  have dc2: "fst (is_duplicate_content (t_scan clk2) (get_payload_hash (payload_of md2))
              (snd (is_processed (t_lookup clk2) ?k2 (idem ?s1))))"
    by (simp add: dup_content_iff hh known_hashes_def sw ph)
  from step_known_content [of msg2 md2 clk2 ?s1 n2 cb, OF p2 nid2 dc2 l2]
  obtain kept2 where s2: "consume_step cb (Message msg2, clk2) ?s1 =
           ?s1\<lparr>idem := (swept clk2 (idem ?s1))\<lparr>cache := kept2 @ [(?k2,
                   new_entry (t_processed clk2) (t_expiry clk2) (event_type_of md2) n2
                     (get_payload_hash (payload_of md2)) (idem ?s1))]\<rparr>,
             messages_skipped := messages_skipped ?s1 + 1,
             committed := committed ?s1 @ [msg2],
             messages_processed := messages_processed ?s1 + 1\<rparr>"
    and k2: "kept2 = cache (swept clk2 (idem ?s1)) \<or>
            (\<exists>oldest rest. cache (swept clk2 (idem ?s1)) = oldest # rest \<and>
               max_size (idem ?s1) \<le> int (length (cache (swept clk2 (idem ?s1)))) \<and>
               kept2 = filter (\<lambda>kv. fst kv \<noteq> fst oldest) rest)"
    by blast
  have "\<exists>pre2. kept2 = pre2 @ [(?k1, ?e1)] \<and> set pre2 \<subseteq> set pre"
  proof (rule disjE [OF k2])
    assume "kept2 = cache (swept clk2 (idem ?s1))"
    then show ?thesis using sw by auto
  next
    assume "\<exists>oldest rest. cache (swept clk2 (idem ?s1)) = oldest # rest \<and>
               max_size (idem ?s1) \<le> int (length (cache (swept clk2 (idem ?s1)))) \<and>
               kept2 = filter (\<lambda>kv. fst kv \<noteq> fst oldest) rest"
    then obtain oldest rest where o0: "cache (swept clk2 (idem ?s1)) = oldest # rest"
      and len0: "max_size (idem ?s1) \<le> int (length (cache (swept clk2 (idem ?s1))))"
      and kk: "kept2 = filter (\<lambda>kv. fst kv \<noteq> fst oldest) rest"
      by blast
    have o: "pre @ [(?k1, ?e1)] = oldest # rest"
      using o0 sw by simp
    have len: "max_size (idem s) \<le> int (length (pre @ [(?k1, ?e1)]))"
      using len0 sw f1(1) by simp
    have "pre \<noteq> []" using len m by auto
    then obtain pt where pp: "pre = oldest # pt" and rr: "rest = pt @ [(?k1, ?e1)]"
      using o by (cases pre) auto
    have "fst oldest \<noteq> ?k1" using k2pre(2) pp by auto
    then have "kept2 = filter (\<lambda>kv. fst kv \<noteq> fst oldest) pt @ [(?k1, ?e1)]"
      using kk rr by simp
    moreover have "set (filter (\<lambda>kv. fst kv \<noteq> fst oldest) pt) \<subseteq> set pre"
      using pp by auto
    ultimately show ?thesis by blast
  qed
  then obtain pre2 where kp: "kept2 = pre2 @ [(?k1, ?e1)]" and p2s: "set pre2 \<subseteq> set pre"
    by blast
  let ?s2 = "consume_step cb (Message msg2, clk2) ?s1"
  have c2: "cache (idem ?s2) = pre2 @ [(?k1, ?e1), (?k2, ?e2)]"
    by (simp add: s2 kp hh new_entry_ttl [OF f1(2)])
  have "?k1 \<notin> fst ` set pre2" "?k2 \<notin> fst ` set pre2"
    using p2s k2pre by auto
  from two_last_known [OF c2 this ne, of t] live3 live4 x1 x2
  have look: "fst (is_processed t ?k1 (idem ?s2))" "fst (is_processed t ?k2 (idem ?s2))"
    "map_of (cache (idem ?s2)) ?k2 = Some ?e2" by auto
  have fields: "cb_calls ?s2 = cb_calls s @ [md1]" "app ?s2 = a"
    "messages_skipped ?s2 = messages_skipped s + 1" "committed ?s2 = committed s @ [msg1, msg2]"
    by (simp_all add: s2) (simp_all add: s1)
  show ?thesis
    using look fields dc2 by (simp add: hh)
qed

lemma consume_loop_one:
  "consume_loop cb [(Message m1, c1)] s = consume_step cb (Message m1, c1) s"
  by simp

lemma consume_loop_two:
  "consume_loop cb [(Message m1, c1), (Message m2, c2)] s =
     consume_step cb (Message m2, c2) (consume_step cb (Message m1, c1) s)"
  by simp

lemma py_iter_len: "py_iter p = Some xs \<Longrightarrow> py_len p = Some (length xs)"
  by (cases p) auto

lemma customer_callback_adds:
  "process_customer_message d ms = (Returned True, a) \<Longrightarrow> py_iter (payload_of d) = Some xs \<Longrightarrow>
   a = add_customer_data xs ms"
  by (auto simp: process_customer_message_def Let_def add_customer_data_def py_iter_len
      split: if_splits option.splits)

lemma inventory_callback_adds:
  "process_inventory_message d ms = (Returned True, a) \<Longrightarrow> py_iter (payload_of d) = Some xs \<Longrightarrow>
   a = add_inventory_data xs ms"
  by (auto simp: process_inventory_message_def Let_def add_inventory_data_def py_iter_len
      split: if_splits option.splits)

text \<open>
  C1: a message whose identity is known to the cache at the poll, so that \<open>is_processed\<close>
  returns true, is skipped: the callback is not called, the state the callback works on is
  unchanged, the skipped counter goes up by one and the offset is committed. Hence when a
  message that is new to the cache and that the callback accepts is delivered twice, the
  second delivery within the TTL of the entry, the callback is called once, both offsets
  are committed and one delivery is counted as skipped; with the customer or the inventory
  callback the merge buffer holds the records of the payload once.
\<close>

theorem C1_identity_duplicate_is_skipped:
  "(msg_value msg = Some md \<and> fst (is_processed (t_lookup clk) (message_id_of md) (idem s)) \<longrightarrow>
      cb_calls (consume_step cb (Message msg, clk) s) = cb_calls s \<and>
      app (consume_step cb (Message msg, clk) s) = app s \<and>
      messages_skipped (consume_step cb (Message msg, clk) s) = messages_skipped s + 1 \<and>
      committed (consume_step cb (Message msg, clk) s) = committed s @ [msg] \<and>
      errors_count (consume_step cb (Message msg, clk) s) = errors_count s) \<and>
   (msg_value m = Some d \<and>
    \<not> fst (is_processed (t_lookup c1) (message_id_of d) (idem r)) \<and>
    \<not> fst (is_duplicate_content (t_scan c1) (get_payload_hash (payload_of d))
            (snd (is_processed (t_lookup c1) (message_id_of d) (idem r)))) \<and>
    cb2 d (app r) = (Returned True, a) \<and> py_len (payload_of d) = Some n \<and>
    0 < max_size (idem r) \<and>
    t_lookup c2 \<le> t_expiry c1 + ttl_seconds (idem r) * 1000000 \<longrightarrow>
      cb_calls (consume_loop cb2 [(Message m, c1), (Message m, c2)] r) = cb_calls r @ [d] \<and>
      app (consume_loop cb2 [(Message m, c1), (Message m, c2)] r) = a \<and>
      committed (consume_loop cb2 [(Message m, c1), (Message m, c2)] r) = committed r @ [m, m] \<and>
      messages_skipped (consume_loop cb2 [(Message m, c1), (Message m, c2)] r) =
        messages_skipped r + 1) \<and>
   (msg_value m = Some d \<and>
    \<not> fst (is_processed (t_lookup c1) (message_id_of d) (idem q)) \<and>
    \<not> fst (is_duplicate_content (t_scan c1) (get_payload_hash (payload_of d))
            (snd (is_processed (t_lookup c1) (message_id_of d) (idem q)))) \<and>
    py_iter (payload_of d) = Some xs \<and> 0 < max_size (idem q) \<and>
    t_lookup c2 \<le> t_expiry c1 + ttl_seconds (idem q) * 1000000 \<longrightarrow>
      (process_customer_message d (app q) = (Returned True, b) \<longrightarrow>
         app (consume_loop process_customer_message [(Message m, c1), (Message m, c2)] q) =
           add_customer_data xs (app q)) \<and>
      (process_inventory_message d (app q) = (Returned True, bi) \<longrightarrow>
         app (consume_loop process_inventory_message [(Message m, c1), (Message m, c2)] q) =
           add_inventory_data xs (app q)))"
proof (intro conjI impI)
  assume h: "msg_value msg = Some md \<and> fst (is_processed (t_lookup clk) (message_id_of md) (idem s))"
  then have p: "msg_value msg = Some md"
    and k: "fst (is_processed (t_lookup clk) (message_id_of md) (idem s))"
    by blast+
  note r = known_id_is_skipped [of msg md clk s cb, OF p k]
  from r show "cb_calls (consume_step cb (Message msg, clk) s) = cb_calls s" by blast
  from r show "app (consume_step cb (Message msg, clk) s) = app s" by blast
  from r show "messages_skipped (consume_step cb (Message msg, clk) s) = messages_skipped s + 1"
    by blast
  from r show "committed (consume_step cb (Message msg, clk) s) = committed s @ [msg]" by blast
  from r show "errors_count (consume_step cb (Message msg, clk) s) = errors_count s" by blast
next
  assume h: "msg_value m = Some d \<and>
    \<not> fst (is_processed (t_lookup c1) (message_id_of d) (idem r)) \<and>
    \<not> fst (is_duplicate_content (t_scan c1) (get_payload_hash (payload_of d))
            (snd (is_processed (t_lookup c1) (message_id_of d) (idem r)))) \<and>
    cb2 d (app r) = (Returned True, a) \<and> py_len (payload_of d) = Some n \<and>
    0 < max_size (idem r) \<and>
    t_lookup c2 \<le> t_expiry c1 + ttl_seconds (idem r) * 1000000"
  then have f: "msg_value m = Some d"
    "\<not> fst (is_processed (t_lookup c1) (message_id_of d) (idem r))"
    "\<not> fst (is_duplicate_content (t_scan c1) (get_payload_hash (payload_of d))
            (snd (is_processed (t_lookup c1) (message_id_of d) (idem r))))"
    "cb2 d (app r) = (Returned True, a)" "py_len (payload_of d) = Some n"
    "0 < max_size (idem r)"
    "t_lookup c2 \<le> t_expiry c1 + ttl_seconds (idem r) * 1000000"
    by blast+
  note t = second_delivery_is_skipped [of m d c1 r cb2 a n c2, OF f, folded consume_loop_two]
  from t show "cb_calls (consume_loop cb2 [(Message m, c1), (Message m, c2)] r) = cb_calls r @ [d]"
    by blast
  from t show "app (consume_loop cb2 [(Message m, c1), (Message m, c2)] r) = a" by blast
  from t show "committed (consume_loop cb2 [(Message m, c1), (Message m, c2)] r) = committed r @ [m, m]"
    by blast
  from t show "messages_skipped (consume_loop cb2 [(Message m, c1), (Message m, c2)] r) =
        messages_skipped r + 1" by blast
next
  assume h: "msg_value m = Some d \<and>
    \<not> fst (is_processed (t_lookup c1) (message_id_of d) (idem q)) \<and>
    \<not> fst (is_duplicate_content (t_scan c1) (get_payload_hash (payload_of d))
            (snd (is_processed (t_lookup c1) (message_id_of d) (idem q)))) \<and>
    py_iter (payload_of d) = Some xs \<and> 0 < max_size (idem q) \<and>
    t_lookup c2 \<le> t_expiry c1 + ttl_seconds (idem q) * 1000000"
    and c: "process_customer_message d (app q) = (Returned True, b)"
  then have f: "msg_value m = Some d"
    "\<not> fst (is_processed (t_lookup c1) (message_id_of d) (idem q))"
    "\<not> fst (is_duplicate_content (t_scan c1) (get_payload_hash (payload_of d))
            (snd (is_processed (t_lookup c1) (message_id_of d) (idem q))))"
    and g: "py_iter (payload_of d) = Some xs" "0 < max_size (idem q)"
    "t_lookup c2 \<le> t_expiry c1 + ttl_seconds (idem q) * 1000000"
    by blast+
  note t = second_delivery_is_skipped [of m d c1 q process_customer_message b "length xs" c2,
      OF f c py_iter_len [OF g(1)] g(2,3), folded consume_loop_two]
  from t customer_callback_adds [OF c g(1)]
  show "app (consume_loop process_customer_message [(Message m, c1), (Message m, c2)] q) =
           add_customer_data xs (app q)" by simp
next
  assume h: "msg_value m = Some d \<and>
    \<not> fst (is_processed (t_lookup c1) (message_id_of d) (idem q)) \<and>
    \<not> fst (is_duplicate_content (t_scan c1) (get_payload_hash (payload_of d))
            (snd (is_processed (t_lookup c1) (message_id_of d) (idem q)))) \<and>
    py_iter (payload_of d) = Some xs \<and> 0 < max_size (idem q) \<and>
    t_lookup c2 \<le> t_expiry c1 + ttl_seconds (idem q) * 1000000"
    and c: "process_inventory_message d (app q) = (Returned True, bi)"
  then have f: "msg_value m = Some d"
    "\<not> fst (is_processed (t_lookup c1) (message_id_of d) (idem q))"
    "\<not> fst (is_duplicate_content (t_scan c1) (get_payload_hash (payload_of d))
            (snd (is_processed (t_lookup c1) (message_id_of d) (idem q))))"
    and g: "py_iter (payload_of d) = Some xs" "0 < max_size (idem q)"
    "t_lookup c2 \<le> t_expiry c1 + ttl_seconds (idem q) * 1000000"
    by blast+
  note t = second_delivery_is_skipped [of m d c1 q process_inventory_message bi "length xs" c2,
      OF f c py_iter_len [OF g(1)] g(2,3), folded consume_loop_two]
  from t inventory_callback_adds [OF c g(1)]
  show "app (consume_loop process_inventory_message [(Message m, c1), (Message m, c2)] q) =
           add_inventory_data xs (app q)" by simp
qed

lemmas example_data =
  clock_at_def md_m1_def md_m2_def md_known_def md_broken_def md_empty_1_def md_empty_2_def
  at_offset_def sync_metadata_def small_cache_def full_cache_def consumer_init_def
  merge_service_init_def message_id_of_def event_type_of_def payload_of_def new_entry_def

lemmas cache_calls = is_processed_def is_duplicate_content_def cleanup_expired_def

lemmas entity_callbacks =
  process_customer_message_def process_inventory_message_def add_customer_data_def
  add_inventory_data_def

theorem C1_witness:
  "messages_skipped (consume_step process_customer_message
      (Message (at_offset 7 (Some md_known)), clock_at 5)
      (consumer_init full_cache merge_service_init)) = 1 \<and>
   cb_calls (consume_step process_customer_message
      (Message (at_offset 7 (Some md_known)), clock_at 5)
      (consumer_init full_cache merge_service_init)) = [] \<and>
   cb_calls (consume_loop process_customer_message
      [(Message (at_offset 123 (Some md_m1)), clock_at 0),
       (Message (at_offset 123 (Some md_m1)), clock_at 1000000)]
      (consumer_init small_cache merge_service_init)) = [md_m1] \<and>
   committed (consume_loop process_customer_message
      [(Message (at_offset 123 (Some md_m1)), clock_at 0),
       (Message (at_offset 123 (Some md_m1)), clock_at 1000000)]
      (consumer_init small_cache merge_service_init)) =
     [at_offset 123 (Some md_m1), at_offset 123 (Some md_m1)] \<and>
   app (consume_loop process_customer_message
      [(Message (at_offset 123 (Some md_m1)), clock_at 0),
       (Message (at_offset 123 (Some md_m1)), clock_at 1000000)]
      (consumer_init small_cache merge_service_init)) =
     \<lparr>customer_buffer = [customer_c1], inventory_buffer = []\<rparr> \<and>
   app (consume_loop process_inventory_message
      [(Message (at_offset 123 (Some md_m1)), clock_at 0),
       (Message (at_offset 123 (Some md_m1)), clock_at 1000000)]
      (consumer_init small_cache merge_service_init)) =
     \<lparr>customer_buffer = [], inventory_buffer = [customer_c1]\<rparr>"
proof -
  let ?known = "at_offset 7 (Some md_known)" and ?m = "at_offset 123 (Some md_m1)"
  let ?s = "consumer_init full_cache merge_service_init :: merge_service consumer"
  let ?r = "consumer_init small_cache merge_service_init :: merge_service consumer"
  let ?a = "\<lparr>customer_buffer = [customer_c1], inventory_buffer = []\<rparr>"
  let ?bi = "\<lparr>customer_buffer = [], inventory_buffer = [customer_c1]\<rparr>"
  have h1: "msg_value ?known = Some md_known \<and>
      fst (is_processed (t_lookup (clock_at 5)) (message_id_of md_known) (idem ?s))"
    by (simp add: example_data cache_calls)
  have h2: "msg_value ?m = Some md_m1 \<and>
    \<not> fst (is_processed (t_lookup (clock_at 0)) (message_id_of md_m1) (idem ?r)) \<and>
    \<not> fst (is_duplicate_content (t_scan (clock_at 0)) (get_payload_hash (payload_of md_m1))
            (snd (is_processed (t_lookup (clock_at 0)) (message_id_of md_m1) (idem ?r)))) \<and>
    process_customer_message md_m1 (app ?r) = (Returned True, ?a) \<and>
    py_len (payload_of md_m1) = Some 1 \<and>
    0 < max_size (idem ?r) \<and>
    t_lookup (clock_at 1000000) \<le> t_expiry (clock_at 0) + ttl_seconds (idem ?r) * 1000000"
    by (simp add: example_data cache_calls entity_callbacks)
  have h3: "msg_value ?m = Some md_m1 \<and>
    \<not> fst (is_processed (t_lookup (clock_at 0)) (message_id_of md_m1) (idem ?r)) \<and>
    \<not> fst (is_duplicate_content (t_scan (clock_at 0)) (get_payload_hash (payload_of md_m1))
            (snd (is_processed (t_lookup (clock_at 0)) (message_id_of md_m1) (idem ?r)))) \<and>
    py_iter (payload_of md_m1) = Some [customer_c1] \<and> 0 < max_size (idem ?r) \<and>
    t_lookup (clock_at 1000000) \<le> t_expiry (clock_at 0) + ttl_seconds (idem ?r) * 1000000"
    by (simp add: example_data cache_calls)
  have h4: "process_customer_message md_m1 (app ?r) = (Returned True, ?a)"
    and h5: "process_inventory_message md_m1 (app ?r) = (Returned True, ?bi)"
    by (simp_all add: example_data entity_callbacks)
  note t = C1_identity_duplicate_is_skipped [where msg = ?known and md = md_known
      and clk = "clock_at 5" and s = ?s and cb = process_customer_message
      and m = ?m and d = md_m1 and ?c1.0 = "clock_at 0" and ?c2.0 = "clock_at 1000000" and r = ?r
      and ?cb2.0 = process_customer_message and a = ?a and n = 1
      and q = ?r and xs = "[customer_c1]" and b = ?a and bi = ?bi]
  from t h1 have a: "messages_skipped (consume_step process_customer_message
      (Message ?known, clock_at 5) ?s) = messages_skipped ?s + 1"
    "cb_calls (consume_step process_customer_message (Message ?known, clock_at 5) ?s) = cb_calls ?s"
    by blast+
  from t h2 have b: "cb_calls (consume_loop process_customer_message
      [(Message ?m, clock_at 0), (Message ?m, clock_at 1000000)] ?r) = cb_calls ?r @ [md_m1]"
    "committed (consume_loop process_customer_message
      [(Message ?m, clock_at 0), (Message ?m, clock_at 1000000)] ?r) = committed ?r @ [?m, ?m]"
    by blast+
  from t h3 h4 have c: "app (consume_loop process_customer_message
      [(Message ?m, clock_at 0), (Message ?m, clock_at 1000000)] ?r) =
        add_customer_data [customer_c1] (app ?r)"
    by blast
  from t h3 h5 have d: "app (consume_loop process_inventory_message
      [(Message ?m, clock_at 0), (Message ?m, clock_at 1000000)] ?r) =
        add_inventory_data [customer_c1] (app ?r)"
    by blast
  show ?thesis
    unfolding a b c d
    by (simp add: consumer_init_def merge_service_init_def add_customer_data_def
        add_inventory_data_def)
qed

text \<open>
  C2: a fetched message whose value does not parse is not committed and counts as an error.
  For a parsed message whose payload has a length, with a cache of positive capacity, the
  offset is committed exactly when the step leaves the identity of the message in the
  cache, which is exactly when the message was skipped as a duplicate by identity or by
  content or its callback returned true; otherwise the offset is not committed and the
  error counter goes up by one. When the callback of a message that is not a duplicate
  returns false or raises, the offset is not committed, the error counter goes up by one,
  and a later poll that delivers the same message calls the callback again.
\<close>

theorem C2_commit_iff_accounted:
  "(msg_value u = None \<longrightarrow>
      consume_step cb0 (Message u, c0) s0 = s0\<lparr>errors_count := errors_count s0 + 1\<rparr>) \<and>
   (msg_value msg = Some md \<and> 0 < max_size (idem s) \<and> py_len (payload_of md) = Some n \<longrightarrow>
      (committed (consume_step cb (Message msg, clk) s) = committed s @ [msg]) =
         (message_id_of md \<in> known_ids (idem (consume_step cb (Message msg, clk) s))) \<and>
      (message_id_of md \<in> known_ids (idem (consume_step cb (Message msg, clk) s))) =
         (fst (is_processed (t_lookup clk) (message_id_of md) (idem s)) \<or>
          fst (is_duplicate_content (t_scan clk) (get_payload_hash (payload_of md))
            (snd (is_processed (t_lookup clk) (message_id_of md) (idem s)))) \<or>
          fst (cb md (app s)) = Returned True) \<and>
      (message_id_of md \<in> known_ids (idem (consume_step cb (Message msg, clk) s)) \<or>
         committed (consume_step cb (Message msg, clk) s) = committed s \<and>
         errors_count (consume_step cb (Message msg, clk) s) = errors_count s + 1)) \<and>
   (msg_value m = Some d \<and>
    \<not> fst (is_processed (t_lookup c1) (message_id_of d) (idem r)) \<and>
    \<not> fst (is_duplicate_content (t_scan c1) (get_payload_hash (payload_of d))
            (snd (is_processed (t_lookup c1) (message_id_of d) (idem r)))) \<and>
    fst (cb2 d (app r)) \<noteq> Returned True \<longrightarrow>
      committed (consume_step cb2 (Message m, c1) r) = committed r \<and>
      errors_count (consume_step cb2 (Message m, c1) r) = errors_count r + 1 \<and>
      cb_calls (consume_step cb2 (Message m, c1) r) = cb_calls r @ [d] \<and>
      cb_calls (consume_loop cb2 [(Message m, c1), (Message m, c2)] r) = cb_calls r @ [d, d])"
proof (intro conjI impI)
  assume "msg_value u = None"
  then show "consume_step cb0 (Message u, c0) s0 = s0\<lparr>errors_count := errors_count s0 + 1\<rparr>"
    by (rule step_unparsed)
next
  assume h: "msg_value msg = Some md \<and> 0 < max_size (idem s) \<and> py_len (payload_of md) = Some n"
  then have p: "msg_value msg = Some md" and m: "0 < max_size (idem s)"
    and l: "py_len (payload_of md) = Some n"
    by simp_all
  note t = commit_iff_recorded [of msg md s n cb clk, OF p m l]
  from t show "(committed (consume_step cb (Message msg, clk) s) = committed s @ [msg]) =
         (message_id_of md \<in> known_ids (idem (consume_step cb (Message msg, clk) s)))"
    by blast
  from t show "(message_id_of md \<in> known_ids (idem (consume_step cb (Message msg, clk) s))) =
         (fst (is_processed (t_lookup clk) (message_id_of md) (idem s)) \<or>
          fst (is_duplicate_content (t_scan clk) (get_payload_hash (payload_of md))
            (snd (is_processed (t_lookup clk) (message_id_of md) (idem s)))) \<or>
          fst (cb md (app s)) = Returned True)"
    by blast
  from t show "message_id_of md \<in> known_ids (idem (consume_step cb (Message msg, clk) s)) \<or>
         committed (consume_step cb (Message msg, clk) s) = committed s \<and>
         errors_count (consume_step cb (Message msg, clk) s) = errors_count s + 1"
    by blast
next
  assume h: "msg_value m = Some d \<and>
    \<not> fst (is_processed (t_lookup c1) (message_id_of d) (idem r)) \<and>
    \<not> fst (is_duplicate_content (t_scan c1) (get_payload_hash (payload_of d))
            (snd (is_processed (t_lookup c1) (message_id_of d) (idem r)))) \<and>
    fst (cb2 d (app r)) \<noteq> Returned True"
  then have p: "msg_value m = Some d"
    and nid: "\<not> fst (is_processed (t_lookup c1) (message_id_of d) (idem r))"
    and nh: "\<not> fst (is_duplicate_content (t_scan c1) (get_payload_hash (payload_of d))
            (snd (is_processed (t_lookup c1) (message_id_of d) (idem r))))"
    and f: "fst (cb2 d (app r)) \<noteq> Returned True"
    by simp_all
  note t = failed_callback_is_retried [of m d c1 r cb2 c2, OF p nid nh f, folded consume_loop_two]
  from t show "committed (consume_step cb2 (Message m, c1) r) = committed r" by blast
  from t show "errors_count (consume_step cb2 (Message m, c1) r) = errors_count r + 1" by blast
  from t show "cb_calls (consume_step cb2 (Message m, c1) r) = cb_calls r @ [d]" by blast
  from t show "cb_calls (consume_loop cb2 [(Message m, c1), (Message m, c2)] r) = cb_calls r @ [d, d]"
    by blast
qed

theorem C2_witness:
  "consume_step process_customer_message (Message (at_offset 1 None), clock_at 0)
      (consumer_init small_cache merge_service_init) =
     (consumer_init small_cache merge_service_init)\<lparr>errors_count := 1\<rparr> \<and>
   committed (consume_step process_customer_message
      (Message (at_offset 2 (Some md_m1)), clock_at 0)
      (consumer_init small_cache merge_service_init)) = [at_offset 2 (Some md_m1)] \<and>
   message_id_of md_m1 \<in> known_ids (idem (consume_step process_customer_message
      (Message (at_offset 2 (Some md_m1)), clock_at 0)
      (consumer_init small_cache merge_service_init))) \<and>
   committed (consume_step process_customer_message
      (Message (at_offset 3 (Some md_broken)), clock_at 0)
      (consumer_init small_cache merge_service_init)) = [] \<and>
   errors_count (consume_step process_customer_message
      (Message (at_offset 3 (Some md_broken)), clock_at 0)
      (consumer_init small_cache merge_service_init)) = 1 \<and>
   cb_calls (consume_loop process_customer_message
      [(Message (at_offset 3 (Some md_broken)), clock_at 0),
       (Message (at_offset 3 (Some md_broken)), clock_at 1000000)]
      (consumer_init small_cache merge_service_init)) = [md_broken, md_broken]"
proof -
  let ?u = "at_offset 1 None" and ?ok = "at_offset 2 (Some md_m1)"
  let ?bad = "at_offset 3 (Some md_broken)"
  let ?r = "consumer_init small_cache merge_service_init :: merge_service consumer"
  have h1: "msg_value ?u = None"
    by (simp add: example_data)
  have h2: "msg_value ?ok = Some md_m1 \<and> 0 < max_size (idem ?r) \<and>
      py_len (payload_of md_m1) = Some 1"
    by (simp add: example_data)
  have h2': "fst (process_customer_message md_m1 (app ?r)) = Returned True"
    by (simp add: example_data entity_callbacks)
  have h3: "msg_value ?bad = Some md_broken \<and>
    \<not> fst (is_processed (t_lookup (clock_at 0)) (message_id_of md_broken) (idem ?r)) \<and>
    \<not> fst (is_duplicate_content (t_scan (clock_at 0)) (get_payload_hash (payload_of md_broken))
            (snd (is_processed (t_lookup (clock_at 0)) (message_id_of md_broken) (idem ?r)))) \<and>
    fst (process_customer_message md_broken (app ?r)) \<noteq> Returned True"
    by (simp add: example_data cache_calls entity_callbacks)
  note t = C2_commit_iff_accounted [where u = ?u and ?cb0.0 = process_customer_message
      and ?c0.0 = "clock_at 0" and ?s0.0 = ?r
      and msg = ?ok and md = md_m1 and s = ?r and n = 1 and cb = process_customer_message
      and clk = "clock_at 0"
      and m = ?bad and d = md_broken and ?c1.0 = "clock_at 0" and ?c2.0 = "clock_at 1000000"
      and r = ?r and ?cb2.0 = process_customer_message]
  from t h1 have a: "consume_step process_customer_message (Message ?u, clock_at 0) ?r =
      ?r\<lparr>errors_count := errors_count ?r + 1\<rparr>"
    by blast
  from t h2 h2' have b: "committed (consume_step process_customer_message
      (Message ?ok, clock_at 0) ?r) = committed ?r @ [?ok]"
    and b': "message_id_of md_m1 \<in> known_ids (idem (consume_step process_customer_message
      (Message ?ok, clock_at 0) ?r))"
    by blast+
  from t h3 have c: "committed (consume_step process_customer_message
      (Message ?bad, clock_at 0) ?r) = committed ?r"
    "errors_count (consume_step process_customer_message
      (Message ?bad, clock_at 0) ?r) = errors_count ?r + 1"
    "cb_calls (consume_loop process_customer_message
      [(Message ?bad, clock_at 0), (Message ?bad, clock_at 1000000)] ?r) =
        cb_calls ?r @ [md_broken, md_broken]"
    by blast+
  have i: "errors_count ?r = 0" "committed ?r = []" "cb_calls ?r = []"
    by (simp_all add: consumer_init_def)
  show ?thesis
    unfolding a b c i using b' by simp
qed

lemma keys_distinct_cleanup:
  "distinct (map fst (cache svc)) \<Longrightarrow> distinct (map fst (cache (cleanup_expired now svc)))"
  by (simp add: cache_cleanup distinct_map_filter)

lemma live_entry_survives:
  assumes i: "(k, e) \<in> set (cache svc)" and d: "distinct (map fst (cache svc))"
    and l: "now \<le> expires_at e"
  shows "(k, e) \<in> set (cache (cleanup_expired now svc))"
proof -
  have "k \<notin> expired_keys now svc"
  proof
    assume "k \<in> expired_keys now svc"
    then obtain e' where a: "(k, e') \<in> set (cache svc)" and b: "expires_at e' < now"
      by (auto simp: expired_keys_def)
    from d i a have "e' = e"
      by (meson eq_key_imp_eq_value)
    with b l show False by simp
  qed
  with i show ?thesis
    by (simp add: cache_cleanup)
qed

lemma live_entry_swept:
  assumes "(k, e) \<in> set (cache svc)" and "distinct (map fst (cache svc))"
    and "t_lookup clk \<le> expires_at e" and "t_scan clk \<le> expires_at e"
  shows "payload_hash e \<in> known_hashes (swept clk svc)"
proof -
  have "(k, e) \<in> set (cache (cleanup_expired (t_lookup clk) svc))"
    using assms(1,2,3) by (rule live_entry_survives)
  then have "(k, e) \<in> set (cache (swept clk svc))"
    unfolding swept_def using keys_distinct_cleanup [OF assms(2)] assms(4)
    by (rule live_entry_survives)
  then show ?thesis
    by (force simp: known_hashes_def)
qed

lemma empty_payload_callbacks:
  assumes "payload_of md = PList []" and "\<forall>m. metadata md = Some m \<longrightarrow> is_dict m"
  shows "process_customer_message md ms = (Returned True, ms)"
    and "process_inventory_message md ms = (Returned True, ms)"
  using assms
  by (auto simp: process_customer_message_def process_inventory_message_def split: option.splits)

lemma payload_of_empty:
  "payload md = None \<or> payload md = Some (PList []) \<Longrightarrow> payload_of md = PList []"
  by (auto simp: payload_of_def)

lemma known_content_is_skipped:
  assumes p: "msg_value msg = Some md" and l: "py_len (payload_of md) = Some n"
    and h: "get_payload_hash (payload_of md) \<in> known_hashes (swept clk (idem s))"
  shows "cb_calls (consume_step cb (Message msg, clk) s) = cb_calls s \<and>
         app (consume_step cb (Message msg, clk) s) = app s \<and>
         messages_skipped (consume_step cb (Message msg, clk) s) = messages_skipped s + 1 \<and>
         committed (consume_step cb (Message msg, clk) s) = committed s @ [msg] \<and>
         (\<not> fst (is_processed (t_lookup clk) (message_id_of md) (idem s)) \<longrightarrow>
            fst (is_duplicate_content (t_scan clk) (get_payload_hash (payload_of md))
              (snd (is_processed (t_lookup clk) (message_id_of md) (idem s)))))"
proof (cases "fst (is_processed (t_lookup clk) (message_id_of md) (idem s))")
  case True
  then show ?thesis
    by (simp add: step_known_id [OF p True])
next
  case nid: False
  have dc: "fst (is_duplicate_content (t_scan clk) (get_payload_hash (payload_of md))
              (snd (is_processed (t_lookup clk) (message_id_of md) (idem s))))"
    using h by (simp add: dup_content_iff)
  from step_known_content [of msg md clk s n cb, OF p nid dc l]
  obtain kept where "consume_step cb (Message msg, clk) s =
           s\<lparr>idem := (swept clk (idem s))\<lparr>cache := kept @ [(message_id_of md,
                   new_entry (t_processed clk) (t_expiry clk) (event_type_of md) n
                     (get_payload_hash (payload_of md)) (idem s))]\<rparr>,
             messages_skipped := messages_skipped s + 1,
             committed := committed s @ [msg],
             messages_processed := messages_processed s + 1\<rparr>"
    by blast
  then show ?thesis
    using dc by simp
qed

lemma accepted_unchanged_is_recorded:
  assumes p: "msg_value msg = Some md" and l: "py_len (payload_of md) = Some n"
    and nid: "\<not> fst (is_processed (t_lookup clk) (message_id_of md) (idem s))"
    and m: "0 < max_size (idem s)"
    and c: "cb md (app s) = (Returned True, app s)"
  shows "\<exists>kept. cache (idem (consume_step cb (Message msg, clk) s)) =
             kept @ [(message_id_of md,
                   new_entry (t_processed clk) (t_expiry clk) (event_type_of md) n
                     (get_payload_hash (payload_of md)) (idem s))] \<and>
           message_id_of md \<notin> fst ` set kept \<and>
           committed (consume_step cb (Message msg, clk) s) = committed s @ [msg] \<and>
           messages_processed (consume_step cb (Message msg, clk) s) = messages_processed s + 1 \<and>
           app (consume_step cb (Message msg, clk) s) = app s"
proof (cases "fst (is_duplicate_content (t_scan clk) (get_payload_hash (payload_of md))
              (snd (is_processed (t_lookup clk) (message_id_of md) (idem s))))")
  case True
  from step_known_content [of msg md clk s n cb, OF p nid True l]
  obtain kept where s1: "consume_step cb (Message msg, clk) s =
           s\<lparr>idem := (swept clk (idem s))\<lparr>cache := kept @ [(message_id_of md,
                   new_entry (t_processed clk) (t_expiry clk) (event_type_of md) n
                     (get_payload_hash (payload_of md)) (idem s))]\<rparr>,
             messages_skipped := messages_skipped s + 1,
             committed := committed s @ [msg],
             messages_processed := messages_processed s + 1\<rparr>"
    and k: "message_id_of md \<notin> fst ` set kept"
    by blast
  show ?thesis
    using k by (intro exI [of _ kept]) (simp add: s1)
next
  case False
  from step_callback_ok [of msg md clk s cb "app s" n, OF p nid False c l m]
  obtain kept where s1: "consume_step cb (Message msg, clk) s =
           s\<lparr>idem := (swept clk (idem s))\<lparr>cache := kept @ [(message_id_of md,
                   new_entry (t_processed clk) (t_expiry clk) (event_type_of md) n
                     (get_payload_hash (payload_of md)) (idem s))]\<rparr>,
             app := app s, cb_calls := cb_calls s @ [md],
             committed := committed s @ [msg],
             messages_processed := messages_processed s + 1\<rparr>"
    and k: "message_id_of md \<notin> fst ` set kept"
    by blast
  show ?thesis
    using k by (intro exI [of _ kept]) (simp add: s1)
qed

lemma last_entry_found: "k \<notin> fst ` set kept \<Longrightarrow> map_of (kept @ [(k, e)]) k = Some e"
  by (induction kept) auto

lemma empty_payload_first:
  assumes p: "msg_value msg = Some md" and e: "payload_of md = PList []"
    and nid: "\<not> fst (is_processed (t_lookup clk) (message_id_of md) (idem s))"
    and m: "0 < max_size (idem s)"
    and c: "cb md (app s) = (Returned True, app s)"
  shows "committed (consume_step cb (Message msg, clk) s) = committed s @ [msg] \<and>
         messages_processed (consume_step cb (Message msg, clk) s) = messages_processed s + 1 \<and>
         app (consume_step cb (Message msg, clk) s) = app s \<and>
         map_of (cache (idem (consume_step cb (Message msg, clk) s))) (message_id_of md) =
           Some (new_entry (t_processed clk) (t_expiry clk) (event_type_of md) 0
                  (get_payload_hash (PList [])) (idem s))"
proof -
  have l: "py_len (payload_of md) = Some 0" by (simp add: e)
  from accepted_unchanged_is_recorded [of msg md 0 clk s cb, OF p l nid m c]
  obtain kept where c1: "cache (idem (consume_step cb (Message msg, clk) s)) =
      kept @ [(message_id_of md, new_entry (t_processed clk) (t_expiry clk) (event_type_of md) 0
                     (get_payload_hash (payload_of md)) (idem s))]"
    and k: "message_id_of md \<notin> fst ` set kept"
    and r: "committed (consume_step cb (Message msg, clk) s) = committed s @ [msg]"
      "messages_processed (consume_step cb (Message msg, clk) s) = messages_processed s + 1"
      "app (consume_step cb (Message msg, clk) s) = app s"
    by blast
  have "map_of (cache (idem (consume_step cb (Message msg, clk) s))) (message_id_of md) =
      Some (new_entry (t_processed clk) (t_expiry clk) (event_type_of md) 0
                     (get_payload_hash (payload_of md)) (idem s))"
    unfolding c1 using k by (rule last_entry_found)
  then show ?thesis
    using r by (simp add: e)
qed

lemma empty_payload_second:
  assumes p: "msg_value msg = Some md" and e: "payload_of md = PList []"
    and nid: "\<not> fst (is_processed (t_lookup clk) (message_id_of md) (idem s))"
    and m: "0 < max_size (idem s)"
    and c: "cb md (app s) = (Returned True, app s)"
    and p2: "msg_value msg2 = Some md2" and e2: "payload_of md2 = PList []"
    and ne: "message_id_of md2 \<noteq> message_id_of md"
    and live1: "t_lookup clk2 \<le> t_expiry clk + ttl_seconds (idem s) * 1000000"
    and live2: "t_scan clk2 \<le> t_expiry clk + ttl_seconds (idem s) * 1000000"
  shows "cb_calls (consume_step cb2 (Message msg2, clk2) (consume_step cb (Message msg, clk) s)) =
           cb_calls (consume_step cb (Message msg, clk) s) \<and>
         app (consume_step cb2 (Message msg2, clk2) (consume_step cb (Message msg, clk) s)) = app s \<and>
         messages_skipped (consume_step cb2 (Message msg2, clk2) (consume_step cb (Message msg, clk) s)) =
           messages_skipped (consume_step cb (Message msg, clk) s) + 1 \<and>
         committed (consume_step cb2 (Message msg2, clk2) (consume_step cb (Message msg, clk) s)) =
           committed s @ [msg, msg2]"
proof -
  let ?s1 = "consume_step cb (Message msg, clk) s"
  let ?e = "new_entry (t_processed clk) (t_expiry clk) (event_type_of md) 0
                     (get_payload_hash (payload_of md)) (idem s)"
  have l: "py_len (payload_of md) = Some 0" by (simp add: e)
  have l2: "py_len (payload_of md2) = Some 0" by (simp add: e2)
  from accepted_unchanged_is_recorded [of msg md 0 clk s cb, OF p l nid m c]
  obtain kept where c1: "cache (idem ?s1) = kept @ [(message_id_of md, ?e)]"
    and k: "message_id_of md \<notin> fst ` set kept"
    and co: "committed ?s1 = committed s @ [msg]" and a: "app ?s1 = app s"
    by blast
  have x: "t_lookup clk2 \<le> expires_at ?e" "t_scan clk2 \<le> expires_at ?e"
    using live1 live2 by (simp_all add: new_entry_def)
  from swept_keeps_last [OF c1 k x]
  obtain pre' where "cache (swept clk2 (idem ?s1)) = pre' @ [(message_id_of md, ?e)]"
    by blast
  then have "payload_hash ?e \<in> known_hashes (swept clk2 (idem ?s1))"
    by (simp add: known_hashes_def)
  then have h: "get_payload_hash (payload_of md2) \<in> known_hashes (swept clk2 (idem ?s1))"
    by (simp add: new_entry_def e e2)
  from known_content_is_skipped [of msg2 md2 0 clk2 ?s1 cb2, OF p2 l2 h]
  show ?thesis
    by (simp add: co a)
qed

lemma mark_processed_keys_distinct:
  assumes d: "distinct (map fst (cache svc))"
    and r: "mark_processed now1 now2 k et rc h svc = Inr svc'"
  shows "distinct (map fst (cache svc'))"
proof (cases "max_size svc \<le> int (length (cache svc))")
  case full: True
  show ?thesis
  proof (cases "cache svc")
    case Nil
    with full r show ?thesis
      by (simp add: mark_processed_def)
  next
    case (Cons oldest rest)
    have "distinct (map fst (filter (\<lambda>kv. fst kv \<noteq> fst oldest) rest))"
      using d Cons by (simp add: distinct_map_filter)
    then show ?thesis
      using r by (auto simp: mark_processed_full [OF full Cons] distinct_update)
  qed
next
  case False
  then have "int (length (cache svc)) < max_size svc" by simp
  from mark_processed_room [OF this] r d show ?thesis
    by (auto simp: distinct_update)
qed

lemma record_message_keys_distinct:
  "distinct (map fst (cache (idem s))) \<Longrightarrow>
   distinct (map fst (cache (idem (snd (record_message clk k et pl h s)))))"
  by (auto simp: record_message_def split: option.splits sum.splits
      dest: mark_processed_keys_distinct)

lemma process_message_keys_distinct:
  "distinct (map fst (cache (idem s))) \<Longrightarrow>
   distinct (map fst (cache (idem (snd (process_message clk msg cb s)))))"
  by (auto simp: process_message_def is_processed_def is_duplicate_content_def Let_def
      keys_distinct_cleanup split: option.splits prod.splits cb_result.splits bool.splits
      intro!: record_message_keys_distinct)

lemma consume_step_keys_distinct:
  assumes "distinct (map fst (cache (idem s)))"
  shows "distinct (map fst (cache (idem (consume_step cb ev s))))"
proof (cases "fst ev")
  case (Message msg)
  obtain ok s1 where pm: "process_message (snd ev) msg cb s = (ok, s1)"
    by (cases "process_message (snd ev) msg cb s")
  have "distinct (map fst (cache (idem s1)))"
    using process_message_keys_distinct [OF assms, of "snd ev" msg cb] by (simp add: pm)
  then show ?thesis
    by (simp add: consume_step_def Message pm)
next
  case (ErrorMessage e)
  then show ?thesis
    using assms by (cases e) (simp_all add: consume_step_def handle_error_def)
qed (use assms in \<open>simp_all add: consume_step_def\<close>)

text \<open>
  C9: a message whose payload is missing or the empty list, whose metadata is absent or a
  dict and whose identity is new to the cache, given to the customer or the inventory
  callback with a cache of positive capacity: the offset is committed, the message counts
  as processed, the merge buffer is as before, and the cache holds the identity with record
  count 0 and the hash of the empty list. A message with a missing or empty payload and
  another identity that is polled next, before that entry expires, does not reach the
  callback: it is counted as skipped and its offset is committed. The same holds in every
  state whose cache holds a live entry with the hash of the empty list, whatever the
  callback; there \<open>is_duplicate_content\<close> answers true when the identity is new.
\<close>

theorem C9_empty_payload_is_processed_and_repeats_are_skipped:
  "(msg_value msg = Some md \<and> (payload md = None \<or> payload md = Some (PList [])) \<and>
    (\<forall>x. metadata md = Some x \<longrightarrow> is_dict x) \<and>
    \<not> fst (is_processed (t_lookup clk) (message_id_of md) (idem s)) \<and>
    0 < max_size (idem s) \<and>
    (cb = process_customer_message \<or> cb = process_inventory_message) \<longrightarrow>
      committed (consume_step cb (Message msg, clk) s) = committed s @ [msg] \<and>
      messages_processed (consume_step cb (Message msg, clk) s) = messages_processed s + 1 \<and>
      app (consume_step cb (Message msg, clk) s) = app s \<and>
      map_of (cache (idem (consume_step cb (Message msg, clk) s))) (message_id_of md) =
        Some (new_entry (t_processed clk) (t_expiry clk) (event_type_of md) 0
               (get_payload_hash (PList [])) (idem s)) \<and>
      (msg_value msg2 = Some md2 \<and> (payload md2 = None \<or> payload md2 = Some (PList [])) \<and>
       message_id_of md2 \<noteq> message_id_of md \<and>
       t_lookup clk2 \<le> t_expiry clk + ttl_seconds (idem s) * 1000000 \<and>
       t_scan clk2 \<le> t_expiry clk + ttl_seconds (idem s) * 1000000 \<longrightarrow>
         cb_calls (consume_loop cb [(Message msg, clk), (Message msg2, clk2)] s) =
           cb_calls (consume_loop cb [(Message msg, clk)] s) \<and>
         app (consume_loop cb [(Message msg, clk), (Message msg2, clk2)] s) = app s \<and>
         messages_skipped (consume_loop cb [(Message msg, clk), (Message msg2, clk2)] s) =
           messages_skipped (consume_loop cb [(Message msg, clk)] s) + 1 \<and>
         committed (consume_loop cb [(Message msg, clk), (Message msg2, clk2)] s) =
           committed s @ [msg, msg2])) \<and>
   (msg_value m = Some d \<and> (payload d = None \<or> payload d = Some (PList [])) \<and>
    (k, e) \<in> set (cache (idem r)) \<and> distinct (map fst (cache (idem r))) \<and>
    payload_hash e = get_payload_hash (PList []) \<and>
    t_lookup c \<le> expires_at e \<and> t_scan c \<le> expires_at e \<longrightarrow>
      cb_calls (consume_step f (Message m, c) r) = cb_calls r \<and>
      app (consume_step f (Message m, c) r) = app r \<and>
      messages_skipped (consume_step f (Message m, c) r) = messages_skipped r + 1 \<and>
      committed (consume_step f (Message m, c) r) = committed r @ [m] \<and>
      (\<not> fst (is_processed (t_lookup c) (message_id_of d) (idem r)) \<longrightarrow>
         fst (is_duplicate_content (t_scan c) (get_payload_hash (payload_of d))
           (snd (is_processed (t_lookup c) (message_id_of d) (idem r))))))"
proof -
  have first: "committed (consume_step cb (Message msg, clk) s) = committed s @ [msg] \<and>
      messages_processed (consume_step cb (Message msg, clk) s) = messages_processed s + 1 \<and>
      app (consume_step cb (Message msg, clk) s) = app s \<and>
      map_of (cache (idem (consume_step cb (Message msg, clk) s))) (message_id_of md) =
        Some (new_entry (t_processed clk) (t_expiry clk) (event_type_of md) 0
               (get_payload_hash (PList [])) (idem s))"
    and c: "cb md (app s) = (Returned True, app s)" and ep: "payload_of md = PList []"
    if h: "msg_value msg = Some md \<and> (payload md = None \<or> payload md = Some (PList [])) \<and>
      (\<forall>x. metadata md = Some x \<longrightarrow> is_dict x) \<and>
      \<not> fst (is_processed (t_lookup clk) (message_id_of md) (idem s)) \<and>
      0 < max_size (idem s) \<and>
      (cb = process_customer_message \<or> cb = process_inventory_message)"
  proof -
    from h have p: "msg_value msg = Some md"
      and nid: "\<not> fst (is_processed (t_lookup clk) (message_id_of md) (idem s))"
      and m: "0 < max_size (idem s)"
      and md: "\<forall>x. metadata md = Some x \<longrightarrow> is_dict x"
      by simp_all
    from h show ep: "payload_of md = PList []"
      by (intro payload_of_empty) simp
    from h empty_payload_callbacks [OF ep md, of "app s"]
    show c: "cb md (app s) = (Returned True, app s)"
      by auto
    show "committed (consume_step cb (Message msg, clk) s) = committed s @ [msg] \<and>
      messages_processed (consume_step cb (Message msg, clk) s) = messages_processed s + 1 \<and>
      app (consume_step cb (Message msg, clk) s) = app s \<and>
      map_of (cache (idem (consume_step cb (Message msg, clk) s))) (message_id_of md) =
        Some (new_entry (t_processed clk) (t_expiry clk) (event_type_of md) 0
               (get_payload_hash (PList [])) (idem s))"
      by (rule empty_payload_first [of msg md clk s cb, OF p ep nid m c])
  qed
  have second: "cb_calls (consume_loop cb [(Message msg, clk), (Message msg2, clk2)] s) =
           cb_calls (consume_loop cb [(Message msg, clk)] s) \<and>
         app (consume_loop cb [(Message msg, clk), (Message msg2, clk2)] s) = app s \<and>
         messages_skipped (consume_loop cb [(Message msg, clk), (Message msg2, clk2)] s) =
           messages_skipped (consume_loop cb [(Message msg, clk)] s) + 1 \<and>
         committed (consume_loop cb [(Message msg, clk), (Message msg2, clk2)] s) =
           committed s @ [msg, msg2]"
    if h: "msg_value msg = Some md \<and> (payload md = None \<or> payload md = Some (PList [])) \<and>
      (\<forall>x. metadata md = Some x \<longrightarrow> is_dict x) \<and>
      \<not> fst (is_processed (t_lookup clk) (message_id_of md) (idem s)) \<and>
      0 < max_size (idem s) \<and>
      (cb = process_customer_message \<or> cb = process_inventory_message)"
    and g: "msg_value msg2 = Some md2 \<and> (payload md2 = None \<or> payload md2 = Some (PList [])) \<and>
       message_id_of md2 \<noteq> message_id_of md \<and>
       t_lookup clk2 \<le> t_expiry clk + ttl_seconds (idem s) * 1000000 \<and>
       t_scan clk2 \<le> t_expiry clk + ttl_seconds (idem s) * 1000000"
  proof -
    from h have p: "msg_value msg = Some md"
      and nid: "\<not> fst (is_processed (t_lookup clk) (message_id_of md) (idem s))"
      and m: "0 < max_size (idem s)"
      by simp_all
    from g have p2: "msg_value msg2 = Some md2"
      and ne: "message_id_of md2 \<noteq> message_id_of md"
      and l1: "t_lookup clk2 \<le> t_expiry clk + ttl_seconds (idem s) * 1000000"
      and l2: "t_scan clk2 \<le> t_expiry clk + ttl_seconds (idem s) * 1000000"
      by simp_all
    from g have e2: "payload_of md2 = PList []"
      by (intro payload_of_empty) simp
    show ?thesis
      unfolding consume_loop_two consume_loop_one
      by (rule empty_payload_second [of msg md clk s cb msg2 md2 clk2 cb,
            OF p ep [OF h] nid m c [OF h] p2 e2 ne l1 l2])
  qed
  have third: "cb_calls (consume_step f (Message m, c) r) = cb_calls r \<and>
      app (consume_step f (Message m, c) r) = app r \<and>
      messages_skipped (consume_step f (Message m, c) r) = messages_skipped r + 1 \<and>
      committed (consume_step f (Message m, c) r) = committed r @ [m] \<and>
      (\<not> fst (is_processed (t_lookup c) (message_id_of d) (idem r)) \<longrightarrow>
         fst (is_duplicate_content (t_scan c) (get_payload_hash (payload_of d))
           (snd (is_processed (t_lookup c) (message_id_of d) (idem r)))))"
    if h: "msg_value m = Some d \<and> (payload d = None \<or> payload d = Some (PList [])) \<and>
      (k, e) \<in> set (cache (idem r)) \<and> distinct (map fst (cache (idem r))) \<and>
      payload_hash e = get_payload_hash (PList []) \<and>
      t_lookup c \<le> expires_at e \<and> t_scan c \<le> expires_at e"
  proof -
    from h have p: "msg_value m = Some d" and i: "(k, e) \<in> set (cache (idem r))"
      and di: "distinct (map fst (cache (idem r)))"
      and ph: "payload_hash e = get_payload_hash (PList [])"
      and l1: "t_lookup c \<le> expires_at e" and l2: "t_scan c \<le> expires_at e"
      by simp_all
    from h have ep: "payload_of d = PList []"
      by (intro payload_of_empty) simp
    have l: "py_len (payload_of d) = Some 0"
      by (simp add: ep)
    have "get_payload_hash (payload_of d) \<in> known_hashes (swept c (idem r))"
      using live_entry_swept [OF i di l1 l2] by (simp add: ph ep)
    from known_content_is_skipped [of m d 0 c r f, OF p l this]
    show ?thesis .
  qed
  from first second third show ?thesis
    by blast
qed

theorem C9_witness:
  "committed (consume_loop process_customer_message
      [(Message (at_offset 1 (Some md_empty_1)), clock_at 0),
       (Message (at_offset 2 (Some md_empty_2)), clock_at 1000000)]
      (consumer_init small_cache merge_service_init)) =
     [at_offset 1 (Some md_empty_1), at_offset 2 (Some md_empty_2)] \<and>
   app (consume_loop process_customer_message
      [(Message (at_offset 1 (Some md_empty_1)), clock_at 0),
       (Message (at_offset 2 (Some md_empty_2)), clock_at 1000000)]
      (consumer_init small_cache merge_service_init)) = merge_service_init \<and>
   map_of (cache (idem (consume_step process_customer_message
      (Message (at_offset 1 (Some md_empty_1)), clock_at 0)
      (consumer_init small_cache merge_service_init)))) ''e1'' =
     Some (new_entry 0 0 ''CUSTOMER'' 0 (get_payload_hash (PList [])) small_cache) \<and>
   cb_calls (consume_step process_inventory_message
      (Message (at_offset 2 (Some md_empty_2)), clock_at 1000000)
      (consumer_init cache_with_empty merge_service_init)) = [] \<and>
   messages_skipped (consume_step process_inventory_message
      (Message (at_offset 2 (Some md_empty_2)), clock_at 1000000)
      (consumer_init cache_with_empty merge_service_init)) = 1 \<and>
   committed (consume_step process_inventory_message
      (Message (at_offset 2 (Some md_empty_2)), clock_at 1000000)
      (consumer_init cache_with_empty merge_service_init)) = [at_offset 2 (Some md_empty_2)]"
proof -
  let ?m1 = "at_offset 1 (Some md_empty_1)" and ?m2 = "at_offset 2 (Some md_empty_2)"
  let ?s = "consumer_init small_cache merge_service_init :: merge_service consumer"
  let ?r = "consumer_init cache_with_empty merge_service_init :: merge_service consumer"
  let ?e = "new_entry 0 0 ''CUSTOMER'' 0 (get_payload_hash (PList [])) small_cache"
  have h1: "msg_value ?m1 = Some md_empty_1 \<and>
    (payload md_empty_1 = None \<or> payload md_empty_1 = Some (PList [])) \<and>
    (\<forall>x. metadata md_empty_1 = Some x \<longrightarrow> is_dict x) \<and>
    \<not> fst (is_processed (t_lookup (clock_at 0)) (message_id_of md_empty_1) (idem ?s)) \<and>
    0 < max_size (idem ?s) \<and>
    (process_customer_message = process_customer_message \<or>
     process_customer_message = process_inventory_message)"
    by (simp add: example_data cache_calls)
  have h2: "msg_value ?m2 = Some md_empty_2 \<and>
    (payload md_empty_2 = None \<or> payload md_empty_2 = Some (PList [])) \<and>
    message_id_of md_empty_2 \<noteq> message_id_of md_empty_1 \<and>
    t_lookup (clock_at 1000000) \<le> t_expiry (clock_at 0) + ttl_seconds (idem ?s) * 1000000 \<and>
    t_scan (clock_at 1000000) \<le> t_expiry (clock_at 0) + ttl_seconds (idem ?s) * 1000000"
    by (simp add: example_data)
  have h3: "msg_value ?m2 = Some md_empty_2 \<and>
    (payload md_empty_2 = None \<or> payload md_empty_2 = Some (PList [])) \<and>
    (''e1'', ?e) \<in> set (cache (idem ?r)) \<and> distinct (map fst (cache (idem ?r))) \<and>
    payload_hash ?e = get_payload_hash (PList []) \<and>
    t_lookup (clock_at 1000000) \<le> expires_at ?e \<and> t_scan (clock_at 1000000) \<le> expires_at ?e"
    by (simp add: example_data cache_with_empty_def)
  note t = C9_empty_payload_is_processed_and_repeats_are_skipped
    [where msg = ?m1 and md = md_empty_1 and clk = "clock_at 0" and s = ?s
      and cb = process_customer_message and ?msg2.0 = ?m2 and ?md2.0 = md_empty_2
      and ?clk2.0 = "clock_at 1000000"
      and m = ?m2 and d = md_empty_2 and k = "''e1''" and e = ?e and r = ?r
      and c = "clock_at 1000000" and f = process_inventory_message]
  from t h1 h2 have a:
    "committed (consume_loop process_customer_message
       [(Message ?m1, clock_at 0), (Message ?m2, clock_at 1000000)] ?s) = committed ?s @ [?m1, ?m2]"
    "app (consume_loop process_customer_message
       [(Message ?m1, clock_at 0), (Message ?m2, clock_at 1000000)] ?s) = app ?s"
    by blast+
  from t h1 have b: "map_of (cache (idem (consume_step process_customer_message
       (Message ?m1, clock_at 0) ?s))) (message_id_of md_empty_1) =
     Some (new_entry (t_processed (clock_at 0)) (t_expiry (clock_at 0)) (event_type_of md_empty_1) 0
               (get_payload_hash (PList [])) (idem ?s))"
    by blast
  from t h3 have c:
    "cb_calls (consume_step process_inventory_message (Message ?m2, clock_at 1000000) ?r) =
       cb_calls ?r"
    "messages_skipped (consume_step process_inventory_message (Message ?m2, clock_at 1000000) ?r) =
       messages_skipped ?r + 1"
    "committed (consume_step process_inventory_message (Message ?m2, clock_at 1000000) ?r) =
       committed ?r @ [?m2]"
    by blast+
  have i: "committed ?s = []" "app ?s = merge_service_init" "cb_calls ?r = []"
    "messages_skipped ?r = 0" "committed ?r = []"
    by (simp_all add: consumer_init_def)
  have j: "message_id_of md_empty_1 = ''e1''" "event_type_of md_empty_1 = ''CUSTOMER''"
    "t_processed (clock_at 0) = 0" "t_expiry (clock_at 0) = 0"
    "new_entry 0 0 ''CUSTOMER'' 0 (get_payload_hash (PList [])) (idem ?s) = ?e"
    by (simp_all add: example_data)
  show ?thesis
    unfolding a c i using b unfolding j by simp
qed

lemma handled_Nil [simp]: "handled [] = []"
  by (simp add: handled_def)

lemma handled_Cons:
  "handled (ev # evs) = (if fst ev = PollRaises then [] else fst ev # handled evs)"
  by (simp add: handled_def)

lemma process_message_counters:
  assumes "process_message clk msg cb s = (ok, s1)"
  shows "committed s1 = committed s \<and> messages_processed s1 = messages_processed s \<and>
         errors_count s1 = errors_count s \<and>
         (messages_skipped s1 = messages_skipped s \<or>
          messages_skipped s1 = messages_skipped s + 1 \<and> (ok \<or> \<not> sized_payload (Message msg)))"
  using assms
  by (auto simp: process_message_def record_message_def mark_processed_def is_processed_def
      is_duplicate_content_def Let_def
      split: option.splits prod.splits cb_result.splits bool.splits sum.splits list.splits
        if_splits)

lemma consume_step_counters:
  assumes "fst ev \<noteq> PollRaises"
  shows "messages_processed (consume_step cb ev s) + errors_count (consume_step cb ev s) =
           messages_processed s + errors_count s +
           (if is_message (fst ev) \<or> fst ev = ErrorMessage OtherKafkaError then 1 else 0)"
    and "messages_processed (consume_step cb ev s) + length (committed s) =
           messages_processed s + length (committed (consume_step cb ev s))"
    and "messages_processed s \<le> messages_processed (consume_step cb ev s)"
    and "messages_skipped s \<le> messages_skipped (consume_step cb ev s)"
    and "messages_skipped (consume_step cb ev s) \<le> messages_skipped s + 1"
    and "sized_payload (fst ev) \<Longrightarrow>
           messages_skipped (consume_step cb ev s) + messages_processed s \<le>
           messages_skipped s + messages_processed (consume_step cb ev s)"
    and "messages_skipped (consume_step cb ev s) + messages_processed s + errors_count s \<le>
           messages_skipped s + messages_processed (consume_step cb ev s) +
           errors_count (consume_step cb ev s)"
proof -
  show "messages_processed (consume_step cb ev s) + errors_count (consume_step cb ev s) =
           messages_processed s + errors_count s +
           (if is_message (fst ev) \<or> fst ev = ErrorMessage OtherKafkaError then 1 else 0)"
  proof (cases "fst ev")
    case (Message msg)
    obtain ok s1 where pm: "process_message (snd ev) msg cb s = (ok, s1)"
      by (cases "process_message (snd ev) msg cb s")
    from process_message_counters [OF pm] show ?thesis
      by (simp add: consume_step_def Message pm)
  next
    case (ErrorMessage e)
    then show ?thesis
      by (cases e) (simp_all add: consume_step_def handle_error_def)
  qed (use assms in \<open>simp_all add: consume_step_def\<close>)
  show "messages_processed (consume_step cb ev s) + length (committed s) =
           messages_processed s + length (committed (consume_step cb ev s))"
  proof (cases "fst ev")
    case (Message msg)
    obtain ok s1 where pm: "process_message (snd ev) msg cb s = (ok, s1)"
      by (cases "process_message (snd ev) msg cb s")
    from process_message_counters [OF pm] show ?thesis
      by (simp add: consume_step_def Message pm)
  next
    case (ErrorMessage e)
    then show ?thesis
      by (cases e) (simp_all add: consume_step_def handle_error_def)
  qed (use assms in \<open>simp_all add: consume_step_def\<close>)
  show "messages_processed s \<le> messages_processed (consume_step cb ev s)"
  proof (cases "fst ev")
    case (Message msg)
    obtain ok s1 where pm: "process_message (snd ev) msg cb s = (ok, s1)"
      by (cases "process_message (snd ev) msg cb s")
    from process_message_counters [OF pm] show ?thesis
      by (simp add: consume_step_def Message pm)
  next
    case (ErrorMessage e)
    then show ?thesis
      by (cases e) (simp_all add: consume_step_def handle_error_def)
  qed (use assms in \<open>simp_all add: consume_step_def\<close>)
  show "messages_skipped s \<le> messages_skipped (consume_step cb ev s)"
  proof (cases "fst ev")
    case (Message msg)
    obtain ok s1 where pm: "process_message (snd ev) msg cb s = (ok, s1)"
      by (cases "process_message (snd ev) msg cb s")
    from process_message_counters [OF pm] show ?thesis
      by (auto simp: consume_step_def Message pm)
  next
    case (ErrorMessage e)
    then show ?thesis
      by (cases e) (simp_all add: consume_step_def handle_error_def)
  qed (use assms in \<open>simp_all add: consume_step_def\<close>)
  show "messages_skipped (consume_step cb ev s) \<le> messages_skipped s + 1"
  proof (cases "fst ev")
    case (Message msg)
    obtain ok s1 where pm: "process_message (snd ev) msg cb s = (ok, s1)"
      by (cases "process_message (snd ev) msg cb s")
    from process_message_counters [OF pm] show ?thesis
      by (auto simp: consume_step_def Message pm)
  next
    case (ErrorMessage e)
    then show ?thesis
      by (cases e) (simp_all add: consume_step_def handle_error_def)
  qed (use assms in \<open>simp_all add: consume_step_def\<close>)
  show "messages_skipped (consume_step cb ev s) + messages_processed s \<le>
           messages_skipped s + messages_processed (consume_step cb ev s)"
    if sz: "sized_payload (fst ev)"
  proof (cases "fst ev")
    case (Message msg)
    obtain ok s1 where pm: "process_message (snd ev) msg cb s = (ok, s1)"
      by (cases "process_message (snd ev) msg cb s")
    from process_message_counters [OF pm] sz show ?thesis
      by (auto simp: consume_step_def Message pm)
  next
    case (ErrorMessage e)
    then show ?thesis
      by (cases e) (simp_all add: consume_step_def handle_error_def)
  qed (use assms in \<open>simp_all add: consume_step_def\<close>)
  show "messages_skipped (consume_step cb ev s) + messages_processed s + errors_count s \<le>
           messages_skipped s + messages_processed (consume_step cb ev s) +
           errors_count (consume_step cb ev s)"
  proof (cases "fst ev")
    case (Message msg)
    obtain ok s1 where pm: "process_message (snd ev) msg cb s = (ok, s1)"
      by (cases "process_message (snd ev) msg cb s")
    from process_message_counters [OF pm] show ?thesis
      by (auto simp: consume_step_def Message pm)
  next
    case (ErrorMessage e)
    then show ?thesis
      by (cases e) (simp_all add: consume_step_def handle_error_def)
  qed (use assms in \<open>simp_all add: consume_step_def\<close>)
qed

lemma consume_loop_counters:
  "messages_processed (consume_loop cb evs s) + errors_count (consume_loop cb evs s) =
     messages_processed s + errors_count s + fetched evs + kafka_errors evs"
  "messages_processed (consume_loop cb evs s) + length (committed s) =
     messages_processed s + length (committed (consume_loop cb evs s))"
  "sized_payloads evs \<Longrightarrow>
     messages_skipped (consume_loop cb evs s) + messages_processed s \<le>
     messages_skipped s + messages_processed (consume_loop cb evs s)"
  "messages_skipped (consume_loop cb evs s) + messages_processed s + errors_count s \<le>
     messages_skipped s + messages_processed (consume_loop cb evs s) +
     errors_count (consume_loop cb evs s)"
proof (induction evs arbitrary: s)
  case Nil
  {
    case 1 show ?case by (simp add: fetched_def kafka_errors_def)
  next
    case 2 show ?case by simp
  next
    case 3 show ?case by simp
  next
    case 4 show ?case by simp
  }
next
  case (Cons ev evs)
  {
    case 1
    show ?case
    proof (cases "fst ev = PollRaises")
      case True
      then show ?thesis by (simp add: fetched_def kafka_errors_def handled_Cons)
    next
      case False
      from Cons.IH(1) [of "consume_step cb ev s"] consume_step_counters(1) [OF False, of cb s]
      show ?thesis
        using False by (auto simp: fetched_def kafka_errors_def handled_Cons)
    qed
  next
    case 2
    show ?case
    proof (cases "fst ev = PollRaises")
      case True
      then show ?thesis by simp
    next
      case False
      from Cons.IH(2) [of "consume_step cb ev s"] consume_step_counters(2) [OF False, of cb s]
      show ?thesis
        using False by simp
    qed
  next
    case 3
    show ?case
    proof (cases "fst ev = PollRaises")
      case True
      then show ?thesis by simp
    next
      case False
      from 3 False have a: "sized_payload (fst ev)" and b: "sized_payloads evs"
        by (simp_all add: sized_payloads_def handled_Cons)
      from Cons.IH(3) [OF b, of "consume_step cb ev s"]
        consume_step_counters(6) [OF False a, of cb s]
      show ?thesis
        using False by simp
    qed
  next
    case 4
    show ?case
    proof (cases "fst ev = PollRaises")
      case True
      then show ?thesis by simp
    next
      case False
      from Cons.IH(4) [of "consume_step cb ev s"] consume_step_counters(7) [OF False, of cb s]
      show ?thesis
        using False by simp
    qed
  }
qed


lemma duplicate_counts_twice:
  assumes p: "msg_value msg = Some md"
    and d: "fst (is_processed (t_lookup clk) (message_id_of md) (idem s)) \<or>
            fst (is_duplicate_content (t_scan clk) (get_payload_hash (payload_of md))
              (snd (is_processed (t_lookup clk) (message_id_of md) (idem s)))) \<and>
            py_len (payload_of md) \<noteq> None"
  shows "messages_skipped (consume_step cb (Message msg, clk) s) = messages_skipped s + 1 \<and>
         messages_processed (consume_step cb (Message msg, clk) s) = messages_processed s + 1 \<and>
         errors_count (consume_step cb (Message msg, clk) s) = errors_count s \<and>
         committed (consume_step cb (Message msg, clk) s) = committed s @ [msg]"
proof (cases "fst (is_processed (t_lookup clk) (message_id_of md) (idem s))")
  case True
  then show ?thesis
    by (simp add: step_known_id [OF p True])
next
  case nid: False
  with d have dc: "fst (is_duplicate_content (t_scan clk) (get_payload_hash (payload_of md))
              (snd (is_processed (t_lookup clk) (message_id_of md) (idem s))))"
    and "py_len (payload_of md) \<noteq> None"
    by simp_all
  then obtain n where l: "py_len (payload_of md) = Some n"
    by auto
  from step_known_content [of msg md clk s n cb, OF p nid dc l]
  obtain kept where "consume_step cb (Message msg, clk) s =
           s\<lparr>idem := (swept clk (idem s))\<lparr>cache := kept @ [(message_id_of md,
                   new_entry (t_processed clk) (t_expiry clk) (event_type_of md) n
                     (get_payload_hash (payload_of md)) (idem s))]\<rparr>,
             messages_skipped := messages_skipped s + 1,
             committed := committed s @ [msg],
             messages_processed := messages_processed s + 1\<rparr>"
    by blast
  then show ?thesis
    by simp
qed

text \<open>
  C10: after any number of polls of a consumer started with its counters at zero,
  \<open>messages_processed\<close> is the number of offsets committed, and \<open>messages_processed\<close> and
  \<open>errors_count\<close> together count every fetched message and every Kafka error other than
  the end of a partition once. A message skipped as a duplicate by identity, or by content
  when its payload has a length, adds one to \<open>messages_skipped\<close> and one to
  \<open>messages_processed\<close> and is committed. Hence \<open>messages_skipped\<close> is at most
  \<open>messages_processed\<close> when every fetched payload has a length, and at most
  \<open>messages_processed + errors_count\<close> in any case: the skipped messages are counted among
  the processed ones, not beside them.
\<close>

theorem C10_skipped_messages_count_as_processed:
  "messages_processed (run cb evs svc a) = length (committed (run cb evs svc a)) \<and>
   messages_processed (run cb evs svc a) + errors_count (run cb evs svc a) =
     fetched evs + kafka_errors evs \<and>
   (sized_payloads evs \<longrightarrow>
      messages_skipped (run cb evs svc a) \<le> messages_processed (run cb evs svc a)) \<and>
   messages_skipped (run cb evs svc a) \<le>
     messages_processed (run cb evs svc a) + errors_count (run cb evs svc a) \<and>
   (msg_value msg = Some md \<and>
    (fst (is_processed (t_lookup clk) (message_id_of md) (idem s)) \<or>
     fst (is_duplicate_content (t_scan clk) (get_payload_hash (payload_of md))
       (snd (is_processed (t_lookup clk) (message_id_of md) (idem s)))) \<and>
     py_len (payload_of md) \<noteq> None) \<longrightarrow>
      messages_skipped (consume_step f (Message msg, clk) s) = messages_skipped s + 1 \<and>
      messages_processed (consume_step f (Message msg, clk) s) = messages_processed s + 1 \<and>
      errors_count (consume_step f (Message msg, clk) s) = errors_count s \<and>
      committed (consume_step f (Message msg, clk) s) = committed s @ [msg])"
proof -
  let ?start = "(consumer_init svc a)\<lparr>running := True\<rparr>"
  have z: "messages_processed ?start = 0" "errors_count ?start = 0" "messages_skipped ?start = 0"
    "committed ?start = []"
    by (simp_all add: consumer_init_def)
  have 1: "messages_processed (run cb evs svc a) = length (committed (run cb evs svc a))"
    using consume_loop_counters(2) [of cb evs ?start] by (simp add: run_def z)
  have 2: "messages_processed (run cb evs svc a) + errors_count (run cb evs svc a) =
     fetched evs + kafka_errors evs"
    using consume_loop_counters(1) [of cb evs ?start] by (simp add: run_def z)
  have 3: "messages_skipped (run cb evs svc a) \<le> messages_processed (run cb evs svc a)"
    if "sized_payloads evs"
    using consume_loop_counters(3) [OF that, of cb ?start] by (simp add: run_def z)
  have 4: "messages_skipped (run cb evs svc a) \<le>
     messages_processed (run cb evs svc a) + errors_count (run cb evs svc a)"
    using consume_loop_counters(4) [of cb evs ?start] by (simp add: run_def z)
  have 5: "messages_skipped (consume_step f (Message msg, clk) s) = messages_skipped s + 1 \<and>
      messages_processed (consume_step f (Message msg, clk) s) = messages_processed s + 1 \<and>
      errors_count (consume_step f (Message msg, clk) s) = errors_count s \<and>
      committed (consume_step f (Message msg, clk) s) = committed s @ [msg]"
    if "msg_value msg = Some md \<and>
    (fst (is_processed (t_lookup clk) (message_id_of md) (idem s)) \<or>
     fst (is_duplicate_content (t_scan clk) (get_payload_hash (payload_of md))
       (snd (is_processed (t_lookup clk) (message_id_of md) (idem s)))) \<and>
     py_len (payload_of md) \<noteq> None)"
    using that duplicate_counts_twice [of msg md clk s f] by blast
  from 1 2 3 4 5 show ?thesis
    by blast
qed

theorem C10_witness:
  "messages_processed (run process_customer_message
      [(Message (at_offset 123 (Some md_m1)), clock_at 0),
       (Message (at_offset 123 (Some md_m1)), clock_at 1000000)]
      small_cache merge_service_init) = 2 \<and>
   messages_skipped (run process_customer_message
      [(Message (at_offset 123 (Some md_m1)), clock_at 0),
       (Message (at_offset 123 (Some md_m1)), clock_at 1000000)]
      small_cache merge_service_init) = 1 \<and>
   errors_count (run process_customer_message
      [(Message (at_offset 123 (Some md_m1)), clock_at 0),
       (Message (at_offset 123 (Some md_m1)), clock_at 1000000)]
      small_cache merge_service_init) = 0 \<and>
   fetched [(Message (at_offset 123 (Some md_m1)), clock_at 0),
       (Message (at_offset 123 (Some md_m1)), clock_at 1000000)] = 2 \<and>
   messages_skipped (consume_step process_customer_message
      (Message (at_offset 7 (Some md_known)), clock_at 5)
      (consumer_init full_cache merge_service_init)) = 1 \<and>
   messages_processed (consume_step process_customer_message
      (Message (at_offset 7 (Some md_known)), clock_at 5)
      (consumer_init full_cache merge_service_init)) = 1"
proof -
  let ?m = "at_offset 123 (Some md_m1)" and ?known = "at_offset 7 (Some md_known)"
  let ?evs = "[(Message ?m, clock_at 0), (Message ?m, clock_at 1000000)]"
  let ?start = "(consumer_init small_cache merge_service_init :: merge_service consumer)
      \<lparr>running := True\<rparr>"
  let ?s = "consumer_init full_cache merge_service_init :: merge_service consumer"
  let ?a = "\<lparr>customer_buffer = [customer_c1], inventory_buffer = []\<rparr>"
  have h1: "sized_payloads ?evs"
    by (simp add: sized_payloads_def handled_def example_data)
  have h2: "msg_value ?known = Some md_known \<and>
     (fst (is_processed (t_lookup (clock_at 5)) (message_id_of md_known) (idem ?s)) \<or>
      fst (is_duplicate_content (t_scan (clock_at 5)) (get_payload_hash (payload_of md_known))
       (snd (is_processed (t_lookup (clock_at 5)) (message_id_of md_known) (idem ?s)))) \<and>
      py_len (payload_of md_known) \<noteq> None)"
    by (simp add: example_data cache_calls)
  have f: "fetched ?evs = 2" "kafka_errors ?evs = 0"
    by (simp_all add: fetched_def kafka_errors_def handled_def)
  have g1: "msg_value ?m = Some md_m1"
    and g2: "\<not> fst (is_processed (t_lookup (clock_at 0)) (message_id_of md_m1) (idem ?start))"
    and g3: "\<not> fst (is_duplicate_content (t_scan (clock_at 0))
            (get_payload_hash (payload_of md_m1))
            (snd (is_processed (t_lookup (clock_at 0)) (message_id_of md_m1) (idem ?start))))"
    and g4: "process_customer_message md_m1 (app ?start) = (Returned True, ?a)"
    and g5: "py_len (payload_of md_m1) = Some 1"
    and g6: "0 < max_size (idem ?start)"
    and g7: "t_lookup (clock_at 1000000) \<le>
        t_expiry (clock_at 0) + ttl_seconds (idem ?start) * 1000000"
    by (simp_all add: example_data cache_calls entity_callbacks)
  from second_delivery_is_skipped [of ?m md_m1 "clock_at 0" ?start process_customer_message ?a 1
      "clock_at 1000000", OF g1 g2 g3 g4 g5 g6 g7, folded consume_loop_two]
  have k: "committed (run process_customer_message ?evs small_cache merge_service_init) = [?m, ?m]"
    "messages_skipped (run process_customer_message ?evs small_cache merge_service_init) = 1"
    by (simp_all add: run_def consumer_init_def)
  note t = C10_skipped_messages_count_as_processed [where cb = process_customer_message
      and evs = ?evs and svc = small_cache and a = merge_service_init
      and msg = ?known and md = md_known and clk = "clock_at 5" and s = ?s
      and f = process_customer_message]
  from t have p: "messages_processed (run process_customer_message ?evs small_cache
      merge_service_init) = 2"
    unfolding k by simp
  from t have "messages_processed (run process_customer_message ?evs small_cache
      merge_service_init) + errors_count (run process_customer_message ?evs small_cache
      merge_service_init) = fetched ?evs + kafka_errors ?evs"
    by blast
  then have e: "errors_count (run process_customer_message ?evs small_cache
      merge_service_init) = 0"
    unfolding p f by simp
  from t h1 have "messages_skipped (run process_customer_message ?evs small_cache
      merge_service_init) \<le> messages_processed (run process_customer_message ?evs small_cache
      merge_service_init)"
    by blast
  from t h2 have c:
    "messages_skipped (consume_step process_customer_message (Message ?known, clock_at 5) ?s) =
       messages_skipped ?s + 1"
    "messages_processed (consume_step process_customer_message (Message ?known, clock_at 5) ?s) =
       messages_processed ?s + 1"
    by blast+
  have i: "messages_skipped ?s = 0" "messages_processed ?s = 0"
    by (simp_all add: consumer_init_def)
  show ?thesis
    unfolding p e k f c i by simp
qed

lemma same_content_second_recorded:
  assumes p1: "msg_value msg1 = Some md1" and p2: "msg_value msg2 = Some md2"
    and ne: "message_id_of md1 \<noteq> message_id_of md2"
    and same: "json_dumps (payload_of md1) = json_dumps (payload_of md2)"
    and nid: "\<not> fst (is_processed (t_lookup clk1) (message_id_of md1) (idem s))"
    and nh: "\<not> fst (is_duplicate_content (t_scan clk1) (get_payload_hash (payload_of md1))
              (snd (is_processed (t_lookup clk1) (message_id_of md1) (idem s))))"
    and n2: "message_id_of md2 \<notin> known_ids (idem s)"
    and c: "cb md1 (app s) = (Returned True, a)"
    and l1: "py_len (payload_of md1) = Some n1" and l2: "py_len (payload_of md2) = Some n2"
    and m: "0 < max_size (idem s)"
    and live1: "t_lookup clk2 \<le> t_expiry clk1 + ttl_seconds (idem s) * 1000000"
    and live2: "t_scan clk2 \<le> t_expiry clk1 + ttl_seconds (idem s) * 1000000"
    and live4: "t \<le> t_expiry clk2 + ttl_seconds (idem s) * 1000000"
  shows "cb_calls (consume_step cb (Message msg2, clk2) (consume_step cb (Message msg1, clk1) s)) =
           cb_calls s @ [md1] \<and>
         app (consume_step cb (Message msg2, clk2) (consume_step cb (Message msg1, clk1) s)) = a \<and>
         messages_skipped (consume_step cb (Message msg2, clk2) (consume_step cb (Message msg1, clk1) s)) =
           messages_skipped s + 1 \<and>
         committed (consume_step cb (Message msg2, clk2) (consume_step cb (Message msg1, clk1) s)) =
           committed s @ [msg1, msg2] \<and>
         fst (is_duplicate_content (t_scan clk2) (get_payload_hash (payload_of md2))
              (snd (is_processed (t_lookup clk2) (message_id_of md2)
                 (idem (consume_step cb (Message msg1, clk1) s))))) \<and>
         map_of (cache (idem (consume_step cb (Message msg2, clk2) (consume_step cb (Message msg1, clk1) s))))
             (message_id_of md2) =
           Some \<lparr>event_type = event_type_of md2, record_count = n2,
                  payload_hash = get_payload_hash (payload_of md2),
                  processed_at = t_processed clk2,
                  expires_at = t_expiry clk2 + ttl_seconds (idem s) * 1000000\<rparr> \<and>
         fst (is_processed t (message_id_of md2)
               (idem (consume_step cb (Message msg2, clk2) (consume_step cb (Message msg1, clk1) s))))"
proof -
  let ?k1 = "message_id_of md1" and ?k2 = "message_id_of md2"
  let ?h = "get_payload_hash (payload_of md1)"
  let ?e1 = "new_entry (t_processed clk1) (t_expiry clk1) (event_type_of md1) n1 ?h (idem s)"
  let ?e2 = "new_entry (t_processed clk2) (t_expiry clk2) (event_type_of md2) n2 ?h (idem s)"
  have hh: "get_payload_hash (payload_of md2) = ?h"
    using same by (simp add: get_payload_hash_def)
  from step_callback_ok [of msg1 md1 clk1 s cb a n1, OF p1 nid nh c l1 m]
  obtain kept where s1: "consume_step cb (Message msg1, clk1) s =
           s\<lparr>idem := (swept clk1 (idem s))\<lparr>cache := kept @ [(?k1, ?e1)]\<rparr>,
             app := a, cb_calls := cb_calls s @ [md1],
             committed := committed s @ [msg1],
             messages_processed := messages_processed s + 1\<rparr>"
    and k: "set kept \<subseteq> set (cache (idem s))" "?k1 \<notin> fst ` set kept"
    by blast
  let ?s1 = "consume_step cb (Message msg1, clk1) s"
  have c1: "cache (idem ?s1) = kept @ [(?k1, ?e1)]" by (simp add: s1)
  have f1: "ttl_seconds (idem ?s1) = ttl_seconds (idem s)"
    by (simp add: s1)
  have x1: "expires_at ?e1 = t_expiry clk1 + ttl_seconds (idem s) * 1000000"
    and x2: "expires_at ?e2 = t_expiry clk2 + ttl_seconds (idem s) * 1000000"
    and ph: "payload_hash ?e1 = ?h"
    by (simp_all add: new_entry_def)
  from swept_keeps_last [OF c1 k(2), of clk2] live1 live2 x1
  obtain pre where sw: "cache (swept clk2 (idem ?s1)) = pre @ [(?k1, ?e1)]"
    by auto
  have "?k2 \<notin> known_ids (idem ?s1)"
    using n2 k ne by (auto simp: known_ids_def c1)
  then have nid2: "\<not> fst (is_processed (t_lookup clk2) ?k2 (idem ?s1))"
    by (simp add: is_processed_eq known_ids_cleanup)
  have dc2: "fst (is_duplicate_content (t_scan clk2) (get_payload_hash (payload_of md2))
              (snd (is_processed (t_lookup clk2) ?k2 (idem ?s1))))"
    by (simp add: dup_content_iff hh known_hashes_def sw ph)
  from step_known_content [of msg2 md2 clk2 ?s1 n2 cb, OF p2 nid2 dc2 l2]
  obtain kept2 where s2: "consume_step cb (Message msg2, clk2) ?s1 =
           ?s1\<lparr>idem := (swept clk2 (idem ?s1))\<lparr>cache := kept2 @ [(?k2,
                   new_entry (t_processed clk2) (t_expiry clk2) (event_type_of md2) n2
                     (get_payload_hash (payload_of md2)) (idem ?s1))]\<rparr>,
             messages_skipped := messages_skipped ?s1 + 1,
             committed := committed ?s1 @ [msg2],
             messages_processed := messages_processed ?s1 + 1\<rparr>"
    and k2: "?k2 \<notin> fst ` set kept2"
    by blast
  let ?s2 = "consume_step cb (Message msg2, clk2) ?s1"
  have c2: "cache (idem ?s2) = kept2 @ [(?k2, ?e2)]"
    by (simp add: s2 hh new_entry_ttl [OF f1])
  have e2: "?e2 = \<lparr>event_type = event_type_of md2, record_count = n2,
                  payload_hash = get_payload_hash (payload_of md2),
                  processed_at = t_processed clk2,
                  expires_at = t_expiry clk2 + ttl_seconds (idem s) * 1000000\<rparr>"
    by (simp add: new_entry_def hh)
  have mp: "map_of (cache (idem ?s2)) ?k2 = Some ?e2"
    unfolding c2 using k2 by (rule last_entry_found)
  have "t \<le> expires_at ?e2"
    using live4 x2 by simp
  from last_survives_cleanup [OF c2 k2 this]
  have "?k2 \<in> known_ids (cleanup_expired t (idem ?s2))"
    by (auto simp: known_ids_def)
  then have look: "fst (is_processed t ?k2 (idem ?s2))"
    by (simp add: is_processed_eq)
  have fields: "cb_calls ?s2 = cb_calls s @ [md1]" "app ?s2 = a"
    "messages_skipped ?s2 = messages_skipped s + 1" "committed ?s2 = committed s @ [msg1, msg2]"
    by (simp_all add: s2) (simp_all add: s1)
  show ?thesis
    using look fields dc2 mp unfolding e2 by simp
qed

text \<open>
  C3, as the code has it: two messages with different identities and the same canonical
  text of the payload, polled one after the other, the first new to the cache and accepted
  by the callback, the second polled before the entry of the first expires, in a cache of
  positive capacity. The callback is called once, for the first. The second is found by
  \<open>is_duplicate_content\<close>, is stored under its own identity with its own event type,
  record count and hash and an expiry of its own, is counted as skipped, and its offset is
  committed. Until that entry expires \<open>is_processed\<close> finds the second identity. It finds
  the first identity too, until the first entry expires, when the cache holds at least two
  entries; a cache that holds one entry gives up the first when it stores the second.
\<close>

theorem C3_same_content_is_skipped_and_recorded:
  assumes "msg_value msg1 = Some md1" and "msg_value msg2 = Some md2"
    and "message_id_of md1 \<noteq> message_id_of md2"
    and "json_dumps (payload_of md1) = json_dumps (payload_of md2)"
    and "\<not> fst (is_processed (t_lookup clk1) (message_id_of md1) (idem s))"
    and "\<not> fst (is_duplicate_content (t_scan clk1) (get_payload_hash (payload_of md1))
              (snd (is_processed (t_lookup clk1) (message_id_of md1) (idem s))))"
    and "message_id_of md2 \<notin> known_ids (idem s)"
    and "cb md1 (app s) = (Returned True, a)"
    and "py_len (payload_of md1) = Some n1" and "py_len (payload_of md2) = Some n2"
    and "0 < max_size (idem s)"
    and "t_lookup clk2 \<le> t_expiry clk1 + ttl_seconds (idem s) * 1000000"
    and "t_scan clk2 \<le> t_expiry clk1 + ttl_seconds (idem s) * 1000000"
    and "t \<le> t_expiry clk2 + ttl_seconds (idem s) * 1000000"
  shows "cb_calls (consume_loop cb [(Message msg1, clk1), (Message msg2, clk2)] s) =
           cb_calls s @ [md1] \<and>
         app (consume_loop cb [(Message msg1, clk1), (Message msg2, clk2)] s) = a \<and>
         messages_skipped (consume_loop cb [(Message msg1, clk1), (Message msg2, clk2)] s) =
           messages_skipped s + 1 \<and>
         committed (consume_loop cb [(Message msg1, clk1), (Message msg2, clk2)] s) =
           committed s @ [msg1, msg2] \<and>
         fst (is_duplicate_content (t_scan clk2) (get_payload_hash (payload_of md2))
              (snd (is_processed (t_lookup clk2) (message_id_of md2)
                 (idem (consume_loop cb [(Message msg1, clk1)] s))))) \<and>
         map_of (cache (idem (consume_loop cb [(Message msg1, clk1), (Message msg2, clk2)] s)))
             (message_id_of md2) =
           Some \<lparr>event_type = event_type_of md2, record_count = n2,
                  payload_hash = get_payload_hash (payload_of md2),
                  processed_at = t_processed clk2,
                  expires_at = t_expiry clk2 + ttl_seconds (idem s) * 1000000\<rparr> \<and>
         fst (is_processed t (message_id_of md2)
               (idem (consume_loop cb [(Message msg1, clk1), (Message msg2, clk2)] s))) \<and>
         (2 \<le> max_size (idem s) \<and> t \<le> t_expiry clk1 + ttl_seconds (idem s) * 1000000 \<longrightarrow>
            fst (is_processed t (message_id_of md1)
               (idem (consume_loop cb [(Message msg1, clk1), (Message msg2, clk2)] s))))"
proof -
  note a = same_content_second_recorded [of msg1 md1 msg2 md2 clk1 s cb a n1 n2 clk2 t,
      OF assms, folded consume_loop_two consume_loop_one]
  have b: "fst (is_processed t (message_id_of md1)
               (idem (consume_loop cb [(Message msg1, clk1), (Message msg2, clk2)] s)))"
    if "2 \<le> max_size (idem s) \<and> t \<le> t_expiry clk1 + ttl_seconds (idem s) * 1000000"
  proof -
    from that have m: "2 \<le> max_size (idem s)"
      and l: "t \<le> t_expiry clk1 + ttl_seconds (idem s) * 1000000"
      by simp_all
    from same_content_is_skipped [of msg1 md1 msg2 md2 clk1 s cb a n1 n2 clk2 t,
        OF assms(1-10) m assms(12,13) l assms(14), folded consume_loop_two consume_loop_one]
    show ?thesis by blast
  qed
  from a b show ?thesis
    by blast
qed

theorem C3_witness:
  "cb_calls (consume_loop process_customer_message
      [(Message (at_offset 1 (Some md_m1)), clock_at 0),
       (Message (at_offset 2 (Some md_m2)), clock_at 1000000)]
      (consumer_init small_cache merge_service_init)) = [md_m1] \<and>
   app (consume_loop process_customer_message
      [(Message (at_offset 1 (Some md_m1)), clock_at 0),
       (Message (at_offset 2 (Some md_m2)), clock_at 1000000)]
      (consumer_init small_cache merge_service_init)) =
     \<lparr>customer_buffer = [customer_c1], inventory_buffer = []\<rparr> \<and>
   messages_skipped (consume_loop process_customer_message
      [(Message (at_offset 1 (Some md_m1)), clock_at 0),
       (Message (at_offset 2 (Some md_m2)), clock_at 1000000)]
      (consumer_init small_cache merge_service_init)) = 1 \<and>
   committed (consume_loop process_customer_message
      [(Message (at_offset 1 (Some md_m1)), clock_at 0),
       (Message (at_offset 2 (Some md_m2)), clock_at 1000000)]
      (consumer_init small_cache merge_service_init)) =
     [at_offset 1 (Some md_m1), at_offset 2 (Some md_m2)] \<and>
   map_of (cache (idem (consume_loop process_customer_message
      [(Message (at_offset 1 (Some md_m1)), clock_at 0),
       (Message (at_offset 2 (Some md_m2)), clock_at 1000000)]
      (consumer_init small_cache merge_service_init)))) ''m2'' =
     Some \<lparr>event_type = ''CUSTOMER'', record_count = 1,
            payload_hash = get_payload_hash (PList [customer_c1]),
            processed_at = 1000000, expires_at = 3601000000\<rparr> \<and>
   fst (is_processed 2000000 (message_id_of md_m1)
     (idem (consume_loop process_customer_message
      [(Message (at_offset 1 (Some md_m1)), clock_at 0),
       (Message (at_offset 2 (Some md_m2)), clock_at 1000000)]
      (consumer_init small_cache merge_service_init)))) \<and>
   fst (is_processed 2000000 (message_id_of md_m2)
     (idem (consume_loop process_customer_message
      [(Message (at_offset 1 (Some md_m1)), clock_at 0),
       (Message (at_offset 2 (Some md_m2)), clock_at 1000000)]
      (consumer_init small_cache merge_service_init))))"
proof -
  let ?m1 = "at_offset 1 (Some md_m1)" and ?m2 = "at_offset 2 (Some md_m2)"
  let ?r = "consumer_init small_cache merge_service_init :: merge_service consumer"
  let ?a = "\<lparr>customer_buffer = [customer_c1], inventory_buffer = []\<rparr>"
  have h1: "msg_value ?m1 = Some md_m1" and h2: "msg_value ?m2 = Some md_m2"
    and h3: "message_id_of md_m1 \<noteq> message_id_of md_m2"
    and h4: "json_dumps (payload_of md_m1) = json_dumps (payload_of md_m2)"
    by (simp_all add: example_data)
  have h5: "\<not> fst (is_processed (t_lookup (clock_at 0)) (message_id_of md_m1) (idem ?r))"
    and h6: "\<not> fst (is_duplicate_content (t_scan (clock_at 0))
              (get_payload_hash (payload_of md_m1))
              (snd (is_processed (t_lookup (clock_at 0)) (message_id_of md_m1) (idem ?r))))"
    and h7: "message_id_of md_m2 \<notin> known_ids (idem ?r)"
    by (simp_all add: example_data cache_calls known_ids_def)
  have h8: "process_customer_message md_m1 (app ?r) = (Returned True, ?a)"
    by (simp add: example_data entity_callbacks)
  have h9: "py_len (payload_of md_m1) = Some 1" and h10: "py_len (payload_of md_m2) = Some 1"
    and h11: "0 < max_size (idem ?r)"
    and h12: "t_lookup (clock_at 1000000) \<le> t_expiry (clock_at 0) + ttl_seconds (idem ?r) * 1000000"
    and h13: "t_scan (clock_at 1000000) \<le> t_expiry (clock_at 0) + ttl_seconds (idem ?r) * 1000000"
    and h14: "2000000 \<le> t_expiry (clock_at 1000000) + ttl_seconds (idem ?r) * 1000000"
    by (simp_all add: example_data)
  have h15: "2 \<le> max_size (idem ?r) \<and>
      2000000 \<le> t_expiry (clock_at 0) + ttl_seconds (idem ?r) * 1000000"
    by (simp add: example_data)
  note t = C3_same_content_is_skipped_and_recorded [of ?m1 md_m1 ?m2 md_m2 "clock_at 0" ?r
      process_customer_message ?a 1 1 "clock_at 1000000" 2000000,
      OF h1 h2 h3 h4 h5 h6 h7 h8 h9 h10 h11 h12 h13 h14]
  have i: "messages_skipped ?r = 0" "committed ?r = []" "cb_calls ?r = []"
    by (simp_all add: consumer_init_def)
  have j: "message_id_of md_m2 = ''m2''" "event_type_of md_m2 = ''CUSTOMER''"
    "payload_of md_m2 = PList [customer_c1]" "t_processed (clock_at 1000000) = 1000000"
    "t_expiry (clock_at 1000000) + ttl_seconds (idem ?r) * 1000000 = 3601000000"
    by (simp_all add: example_data)
  from t h15 have
    "cb_calls (consume_loop process_customer_message
       [(Message ?m1, clock_at 0), (Message ?m2, clock_at 1000000)] ?r) = cb_calls ?r @ [md_m1]"
    "app (consume_loop process_customer_message
       [(Message ?m1, clock_at 0), (Message ?m2, clock_at 1000000)] ?r) = ?a"
    "messages_skipped (consume_loop process_customer_message
       [(Message ?m1, clock_at 0), (Message ?m2, clock_at 1000000)] ?r) = messages_skipped ?r + 1"
    "committed (consume_loop process_customer_message
       [(Message ?m1, clock_at 0), (Message ?m2, clock_at 1000000)] ?r) = committed ?r @ [?m1, ?m2]"
    "map_of (cache (idem (consume_loop process_customer_message
       [(Message ?m1, clock_at 0), (Message ?m2, clock_at 1000000)] ?r))) (message_id_of md_m2) =
     Some \<lparr>event_type = event_type_of md_m2, record_count = 1,
            payload_hash = get_payload_hash (payload_of md_m2),
            processed_at = t_processed (clock_at 1000000),
            expires_at = t_expiry (clock_at 1000000) + ttl_seconds (idem ?r) * 1000000\<rparr>"
    "fst (is_processed 2000000 (message_id_of md_m2) (idem (consume_loop process_customer_message
       [(Message ?m1, clock_at 0), (Message ?m2, clock_at 1000000)] ?r)))"
    "fst (is_processed 2000000 (message_id_of md_m1) (idem (consume_loop process_customer_message
       [(Message ?m1, clock_at 0), (Message ?m2, clock_at 1000000)] ?r)))"
    by blast+
  then show ?thesis
    unfolding i j by simp
qed

lemmas consumer_calls =
  consume_step_def process_message_def record_message_def mark_processed_def Let_def

text \<open>
  Against C3 as stated: in a cache that holds one entry, after the two messages
  \<open>is_processed\<close> finds the second identity and not the first, which was given up when the
  second was stored. The callback was called once.
\<close>

theorem C3_counterexample:
  "\<not> fst (is_processed 2000000 (message_id_of md_m1)
     (idem (consume_loop process_customer_message
        [(Message (at_offset 1 (Some md_m1)), clock_at 0),
         (Message (at_offset 2 (Some md_m2)), clock_at 1000000)]
        (consumer_init one_slot_cache merge_service_init)))) \<and>
   fst (is_processed 2000000 (message_id_of md_m2)
     (idem (consume_loop process_customer_message
        [(Message (at_offset 1 (Some md_m1)), clock_at 0),
         (Message (at_offset 2 (Some md_m2)), clock_at 1000000)]
        (consumer_init one_slot_cache merge_service_init)))) \<and>
   cb_calls (consume_loop process_customer_message
        [(Message (at_offset 1 (Some md_m1)), clock_at 0),
         (Message (at_offset 2 (Some md_m2)), clock_at 1000000)]
        (consumer_init one_slot_cache merge_service_init)) = [md_m1]"
  by (simp add: consumer_calls cache_calls example_data entity_callbacks one_slot_cache_def)

lemmas sha_eval =
  sha256_hexdigest_def sha256_def sha_block_def schedule_def schedule_step_def
  extend_schedule.simps zeros.simps sha_pad_def hex_word_def hex_digit_def
  add32_def rotr_def sha_ch_def sha_maj_def bsig0_def bsig1_def ssig0_def ssig1_def
  sha_k_def sha_h0_def Let_def

lemma insort_key_map_fst:
  assumes "\<And>x. fst (f x) = fst x"
  shows "insort_key fst (f x) (map f ys) = map f (insort_key fst x ys)"
  by (induction ys) (simp_all add: assms)

lemma sort_key_map_fst:
  assumes "\<And>x. fst (f x) = fst x"
  shows "sort_key fst (map f xs) = map f (sort_key fst xs)"
  by (induction xs) (simp_all add: insort_key_map_fst assms)

lemma sort_key_map_value:
  "sort_key fst (map (map_prod id g) xs) = map (map_prod id g) (sort_key fst xs)"
  by (rule sort_key_map_fst) (simp add: split_beta)

lemma sort_key_twice: "sort_key f (sort_key f xs) = sort_key f xs"
  by (rule sort_key_id_if_sorted) (rule sorted_sort_key)

lemma json_dumps_key_sorted: "json_dumps (key_sorted v) = json_dumps v"
proof (induction v)
  case (PList xs)
  have m: "map (\<lambda>x. json_dumps (key_sorted x)) xs = map json_dumps xs"
    by (rule map_cong) (simp_all add: PList)
  show ?case
    by (simp add: comp_def m)
next
  case (PDict kvs)
  have "map_prod id json_dumps (map_prod id key_sorted kv) = map_prod id json_dumps kv"
    if "kv \<in> set kvs" for kv
    using PDict [OF that] by (cases kv) simp
  then have a: "map (map_prod id json_dumps) (map (map_prod id key_sorted) kvs) =
      map (map_prod id json_dumps) kvs"
    by simp
  have "sort_key fst (map (map_prod id json_dumps)
          (sort_key fst (map (map_prod id key_sorted) kvs))) =
        sort_key fst (sort_key fst (map (map_prod id json_dumps)
          (map (map_prod id key_sorted) kvs)))"
    by (simp only: sort_key_map_value)
  also have "\<dots> = sort_key fst (map (map_prod id json_dumps) kvs)"
    by (simp only: a sort_key_twice)
  finally show ?case
    by simp
qed simp_all

lemma filter_key_single:
  "distinct (map fst zs) \<Longrightarrow> k \<in> set zs \<Longrightarrow> filter (\<lambda>x. fst k = fst x) zs = [k]"
proof (induction zs)
  case Nil
  then show ?case by simp
next
  case (Cons z zs)
  have nz: "fst z \<notin> fst ` set zs" and dz: "distinct (map fst zs)"
    using Cons.prems(1) by simp_all
  show ?case
  proof (cases "k = z")
    case True
    have "fst z \<noteq> fst x" if "x \<in> set zs" for x
      using nz that by (metis imageI)
    then have "filter (\<lambda>x. fst z = fst x) zs = []"
      by (simp add: filter_empty_conv)
    then show ?thesis
      using True by simp
  next
    case False
    then have kz: "k \<in> set zs" using Cons.prems(2) by simp
    then have "fst k \<in> fst ` set zs"
      by (rule imageI)
    then have "fst k \<noteq> fst z"
      using nz by metis
    then show ?thesis
      using Cons.IH [OF dz kz] by simp
  qed
qed

lemma sort_key_permuted:
  assumes m: "mset ys = mset xs" and d: "distinct (map fst xs)"
  shows "sort_key fst ys = sort_key fst xs"
proof (rule properties_for_sort_key)
  show "mset (sort_key fst xs) = mset ys"
    using m by simp
  show "sorted (map fst (sort_key fst xs))"
    by (rule sorted_sort_key)
  have "mset (map fst ys) = mset (map fst xs)"
    using m by (metis mset_map)
  then have dy: "distinct (map fst ys)"
    using d by (metis mset_eq_imp_distinct_iff)
  have ds: "distinct (map fst (sort_key fst xs))"
    using d by (metis distinct_sort mset_eq_imp_distinct_iff mset_map mset_sort)
  show "filter (\<lambda>x. fst k = fst x) (sort_key fst xs) = filter (\<lambda>x. fst k = fst x) ys"
    if "k \<in> set (sort_key fst xs)" for k
  proof -
    from that have kx: "k \<in> set xs" by simp
    then have ky: "k \<in> set ys" using m by (metis mset_eq_setD)
    show ?thesis
      by (simp only: filter_key_single [OF ds that] filter_key_single [OF dy ky])
  qed
qed

lemma json_dumps_permuted:
  assumes d: "distinct (map fst kvs)" and m: "mset kvs' = mset kvs"
  shows "json_dumps (PDict kvs') = json_dumps (PDict kvs)"
proof -
  have "mset (map (map_prod id json_dumps) kvs') = mset (map (map_prod id json_dumps) kvs)"
    using m by (metis mset_map)
  moreover have "distinct (map fst (map (map_prod id json_dumps) kvs))"
    using d by (simp add: comp_def)
  ultimately have "sort_key fst (map (map_prod id json_dumps) kvs') =
      sort_key fst (map (map_prod id json_dumps) kvs)"
    by (rule sort_key_permuted)
  then show ?thesis
    by simp
qed

lemma nat_digits_head: "nat_digits n \<noteq> [] \<and> hd (nat_digits n) \<in> set ''0123456789''"
proof (induction n rule: nat_digits.induct)
  case (1 n)
  show ?case
  proof (cases "n < 10")
    case True
    have "''0123456789'' ! (n mod 10) \<in> set ''0123456789''"
      by (rule nth_mem) simp
    then show ?thesis
      using True by (subst nat_digits.simps, subst nat_digits.simps) (simp add: digit_char_def)
  next
    case False
    with 1 have "nat_digits (n div 10) \<noteq> [] \<and> hd (nat_digits (n div 10)) \<in> set ''0123456789''"
      by simp
    then show ?thesis
      using False by (subst nat_digits.simps, subst nat_digits.simps) simp
  qed
qed

lemma int_text_is_no_string_text: "py_str_int i \<noteq> encode_str s"
proof -
  have "hd (py_str_int i) \<in> set ''-0123456789''"
    using nat_digits_head [of "nat i"] nat_digits_head [of "nat (- i)"]
    by (auto simp: py_str_int_def)
  moreover have "hd (encode_str s) = CHR 0x22"
    by (simp add: encode_str_def)
  ultimately show ?thesis
    by auto
qed

lemma text_number_field: "json_dumps (PDict [(''a'', PInt 1)]) = ''{\"a\": 1}''"
  by code_simp

lemma text_string_field: "json_dumps (PDict [(''a'', PStr ''1'')]) = ''{\"a\": \"1\"}''"
  by code_simp

lemma hash_number_field: "sha256_hexdigest ''{\"a\": 1}'' =
    ''f9d86028c6e0d64e225186f96acb69338b2c59764df79162107f5c4bb34d1310''"
  by (simp add: sha_eval)

lemma hash_string_field: "sha256_hexdigest ''{\"a\": \"1\"}'' =
    ''452647e07c48d5e6dbdad452d4f4715de98ad66f3397952966e13ffa37b3523f''"
  by (simp add: sha_eval)

theorem C8_counterexample:
  "get_payload_hash (PDict [(''a'', PInt 1)]) \<noteq> get_payload_hash (PDict [(''a'', PStr ''1'')])"
  unfolding get_payload_hash_def text_number_field text_string_field
    hash_number_field hash_string_field
  by simp

text \<open>
  C8: the hash is the SHA-256 of the canonical text, so equal texts give equal hashes. Two
  payloads that become equal when the items of every dict are sorted by key have the same
  text; so have two dicts with the same items in another order. A value the encoder does
  not know is replaced by the string \<^verbatim>\<open>str\<close> gives it and hashes as that string. A number is
  written without quotes and a string with them: the text of an integer is never the text
  of a string.
\<close>

theorem C8_hash_ignores_key_order_not_field_type:
  "(key_sorted a = key_sorted b \<longrightarrow> get_payload_hash a = get_payload_hash b) \<and>
   (distinct (map fst kvs) \<and> mset kvs' = mset kvs \<longrightarrow>
      get_payload_hash (PDict kvs') = get_payload_hash (PDict kvs)) \<and>
   get_payload_hash (POther s) = get_payload_hash (PStr s) \<and>
   json_dumps (PInt i) \<noteq> json_dumps (PStr t)"
proof (intro conjI impI)
  assume "key_sorted a = key_sorted b"
  then have "json_dumps (key_sorted a) = json_dumps (key_sorted b)"
    by simp
  then show "get_payload_hash a = get_payload_hash b"
    by (simp add: json_dumps_key_sorted get_payload_hash_def)
next
  assume "distinct (map fst kvs) \<and> mset kvs' = mset kvs"
  then have "json_dumps (PDict kvs') = json_dumps (PDict kvs)"
    by (intro json_dumps_permuted) simp_all
  then show "get_payload_hash (PDict kvs') = get_payload_hash (PDict kvs)"
    by (simp add: get_payload_hash_def)
next
  show "get_payload_hash (POther s) = get_payload_hash (PStr s)"
    by (simp add: get_payload_hash_def)
next
  show "json_dumps (PInt i) \<noteq> json_dumps (PStr t)"
    by (simp add: int_text_is_no_string_text)
qed

theorem C8_witness:
  "get_payload_hash (PDict [(''a'', PInt 1), (''b'', PInt 2)]) =
     get_payload_hash (PDict [(''b'', PInt 2), (''a'', PInt 1)]) \<and>
   get_payload_hash (PDict [(''id'', PStr ''c1''), (''tags'', PList [PDict [(''y'', PInt 2), (''x'', PInt 1)]])]) =
     get_payload_hash (PDict [(''tags'', PList [PDict [(''x'', PInt 1), (''y'', PInt 2)]]), (''id'', PStr ''c1'')])"
proof -
  let ?a = "PDict [(''id'', PStr ''c1''), (''tags'', PList [PDict [(''y'', PInt 2), (''x'', PInt 1)]])]"
  let ?b = "PDict [(''tags'', PList [PDict [(''x'', PInt 1), (''y'', PInt 2)]]), (''id'', PStr ''c1'')]"
  have h1: "key_sorted ?a = key_sorted ?b"
    by code_simp
  have h2: "distinct (map fst [(''b'', PInt 2), (''a'', PInt 1)]) \<and>
      mset [(''a'', PInt 1), (''b'', PInt 2)] = mset [(''b'', PInt 2), (''a'', PInt 1)]"
    by simp
  note t = C8_hash_ignores_key_order_not_field_type [where a = ?a and b = ?b
      and kvs = "[(''b'', PInt 2), (''a'', PInt 1)]" and kvs' = "[(''a'', PInt 1), (''b'', PInt 2)]"]
  from t h1 h2 show ?thesis
    by blast
qed

end
